(* ===== verification/Prelude.thy ===== *)
theory Prelude
  imports Main "HOL-Library.List_Lexorder" "HOL-Library.Char_ord" "HOL-Library.Multiset"
begin

text \<open>
  Shared vocabulary of the development: the parts of Go's standard library the program
  calls (package \<open>strings\<close>, number formatting, line scanning), collections of proof hints and
  generic lemmas on lists and association lists. A Go string is a sequence of bytes, so it is a
  \<open>string\<close> (a list of 8-bit characters); byte order is the order of \<open>Char_ord\<close>,
  and string comparison is the lexicographic order of \<open>List_Lexorder\<close>.
\<close>

named_theorems go_defs \<open>definitions that unfold when a component is evaluated\<close>
named_theorems str_simps \<open>facts on the string functions\<close>

type_synonym gostring = string

text \<open>The result of a fallible call: \<open>Inl\<close> is the error, \<open>Inr\<close> the value.\<close>

type_synonym ('e, 'a) res = "'e + 'a"

section \<open>Bytes\<close>

definition byte :: "char \<Rightarrow> nat" where
  "byte c = of_char c"

lemma byte_inj: "byte c = byte d \<longleftrightarrow> c = d"
  by (simp add: byte_def)

lemma byte_less: "byte c < 256"
  by (simp add: byte_def)

definition in_byte_range :: "nat \<Rightarrow> nat \<Rightarrow> char \<Rightarrow> bool" where
  "in_byte_range lo hi c \<longleftrightarrow> lo \<le> byte c \<and> byte c \<le> hi"

definition is_lower_ascii :: "char \<Rightarrow> bool" where
  "is_lower_ascii c \<longleftrightarrow> in_byte_range 97 122 c"

definition is_upper_ascii :: "char \<Rightarrow> bool" where
  "is_upper_ascii c \<longleftrightarrow> in_byte_range 65 90 c"

definition is_digit_ascii :: "char \<Rightarrow> bool" where
  "is_digit_ascii c \<longleftrightarrow> in_byte_range 48 57 c"

text \<open>
  \<open>strings.ToLower\<close> and \<open>strings.ToUpper\<close> on ASCII; bytes outside ASCII are left alone.
  Go also maps letters outside ASCII; the keys, header names and flags the program lowers are
  compared with ASCII literals only.
\<close>

definition lower_byte :: "char \<Rightarrow> char" where
  "lower_byte c = (if is_upper_ascii c then char_of (byte c + 32) else c)"

definition upper_byte :: "char \<Rightarrow> char" where
  "upper_byte c = (if is_lower_ascii c then char_of (byte c - 32) else c)"

definition to_lower :: "gostring \<Rightarrow> gostring" where
  "to_lower s = map lower_byte s"

definition to_upper :: "gostring \<Rightarrow> gostring" where
  "to_upper s = map upper_byte s"

lemma byte_lower_byte:
  "byte (lower_byte c) = (if is_upper_ascii c then byte c + 32 else byte c)"
  by (auto simp: lower_byte_def byte_def is_upper_ascii_def in_byte_range_def)

lemma lower_byte_idem [simp]: "lower_byte (lower_byte c) = lower_byte c"
proof (cases "is_upper_ascii c")
  case True
  then have "\<not> is_upper_ascii (lower_byte c)"
    by (simp add: is_upper_ascii_def in_byte_range_def byte_lower_byte)
  then show ?thesis by (simp add: lower_byte_def [of "lower_byte c"])
qed (simp add: lower_byte_def)

lemma to_lower_idem [simp]: "to_lower (to_lower s) = to_lower s"
  by (simp add: to_lower_def)

lemma length_to_lower [simp]: "length (to_lower s) = length s"
  by (simp add: to_lower_def)

lemma to_lower_append [simp]: "to_lower (s @ t) = to_lower s @ to_lower t"
  by (simp add: to_lower_def)

section \<open>Package strings\<close>

definition has_prefix :: "gostring \<Rightarrow> gostring \<Rightarrow> bool" where
  "has_prefix s p \<longleftrightarrow> take (length p) s = p"

definition has_suffix :: "gostring \<Rightarrow> gostring \<Rightarrow> bool" where
  "has_suffix s p \<longleftrightarrow> length p \<le> length s \<and> drop (length s - length p) s = p"

definition trim_prefix :: "gostring \<Rightarrow> gostring \<Rightarrow> gostring" where
  "trim_prefix s p = (if has_prefix s p then drop (length p) s else s)"

lemma has_prefix_append [simp]: "has_prefix (p @ s) p"
  by (simp add: has_prefix_def)

lemma has_prefix_iff: "has_prefix s p \<longleftrightarrow> (\<exists>t. s = p @ t)"
proof
  assume "has_prefix s p"
  then have "s = p @ drop (length p) s"
    unfolding has_prefix_def by (metis append_take_drop_id)
  then show "\<exists>t. s = p @ t" by blast
qed auto

lemma has_suffix_iff: "has_suffix s p \<longleftrightarrow> (\<exists>t. s = t @ p)"
proof
  assume "has_suffix s p"
  then have "s = take (length s - length p) s @ p"
    unfolding has_suffix_def by (metis append_take_drop_id)
  then show "\<exists>t. s = t @ p" by blast
qed (auto simp: has_suffix_def)

lemma trim_prefix_append [simp]: "trim_prefix (p @ s) p = s"
  by (simp add: trim_prefix_def)

text \<open>\<open>strings.Index\<close>: the offset of the first occurrence.\<close>

fun str_index :: "gostring \<Rightarrow> gostring \<Rightarrow> nat option" where
  "str_index [] p = (if p = [] then Some 0 else None)"
| "str_index (c # s) p =
     (if has_prefix (c # s) p then Some 0 else map_option Suc (str_index s p))"

definition str_contains :: "gostring \<Rightarrow> gostring \<Rightarrow> bool" where
  "str_contains s p \<longleftrightarrow> str_index s p \<noteq> None"

text \<open>\<open>strings.Cut\<close>: the text before and after the first separator.\<close>

definition str_cut :: "gostring \<Rightarrow> gostring \<Rightarrow> gostring \<times> gostring \<times> bool" where
  "str_cut s sep = (case str_index s sep of
       None \<Rightarrow> (s, [], False)
     | Some i \<Rightarrow> (take i s, drop (i + length sep) s, True))"

lemma str_index_Some:
  "str_index s p = Some i \<Longrightarrow> s = take i s @ p @ drop (i + length p) s \<and> i + length p \<le> length s"
proof (induction s p arbitrary: i rule: str_index.induct)
  case (2 c s p)
  show ?case
  proof (cases "has_prefix (c # s) p")
    case True
    with "2.prems" have "i = 0" by simp
    moreover obtain t where "c # s = p @ t" using True by (auto simp: has_prefix_iff)
    ultimately show ?thesis by (metis add_0 append_Nil append_eq_conv_conj drop0 length_append le_add1 take0)
  next
    case False
    with "2.prems" obtain j where "str_index s p = Some j" and "i = Suc j" by auto
    with "2.IH" False show ?thesis by auto
  qed
qed (auto split: if_splits)

lemma str_index_first:
  "str_index s p = Some i \<Longrightarrow> j < i \<Longrightarrow> \<not> has_prefix (drop j s) p"
proof (induction s p arbitrary: i j rule: str_index.induct)
  case (2 c s p)
  then show ?case by (cases j) (auto split: if_splits)
qed (auto split: if_splits)

lemma str_index_None: "str_index s p = None \<longleftrightarrow> (\<forall>a b. s \<noteq> a @ p @ b)"
proof (induction s p rule: str_index.induct)
  case (1 p)
  then show ?case by auto
next
  case (2 c s p)
  show ?case
  proof (cases "has_prefix (c # s) p")
    case True
    then obtain t where "c # s = [] @ p @ t" by (auto simp: has_prefix_iff)
    with True show ?thesis by (metis option.distinct(1) str_index.simps(2))
  next
    case False
    then have "(\<forall>a b. c # s \<noteq> a @ p @ b) \<longleftrightarrow> (\<forall>a b. s \<noteq> a @ p @ b)"
      by (auto simp: has_prefix_iff Cons_eq_append_conv)
    with False 2 show ?thesis by simp
  qed
qed

lemma str_contains_iff: "str_contains s p \<longleftrightarrow> (\<exists>a b. s = a @ p @ b)"
  using str_index_None [of s p] by (auto simp: str_contains_def)

text \<open>\<open>strings.ReplaceAll\<close> and \<open>strings.Replace(s, old, new, 1)\<close> for a non-empty old text.\<close>

function str_replace_all :: "gostring \<Rightarrow> gostring \<Rightarrow> gostring \<Rightarrow> gostring" where
  "str_replace_all s old new =
     (if s = [] then []
      else if old \<noteq> [] \<and> has_prefix s old then new @ str_replace_all (drop (length old) s) old new
      else hd s # str_replace_all (tl s) old new)"
  by pat_completeness auto
termination
  by (relation "measure (\<lambda>(s, old, new). length s)") auto

declare str_replace_all.simps [simp del]

definition str_replace_first :: "gostring \<Rightarrow> gostring \<Rightarrow> gostring \<Rightarrow> gostring" where
  "str_replace_first s old new = (case str_index s old of
       None \<Rightarrow> s
     | Some i \<Rightarrow> take i s @ new @ drop (i + length old) s)"

definition str_join :: "gostring list \<Rightarrow> gostring \<Rightarrow> gostring" where
  "str_join xs sep = (case xs of [] \<Rightarrow> [] | y # ys \<Rightarrow> y @ concat (map (\<lambda>z. sep @ z) ys))"

lemma str_join_simps [simp]:
  "str_join [] sep = []"
  "str_join [x] sep = x"
  "str_join (x # y # ys) sep = x @ sep @ str_join (y # ys) sep"
  by (simp_all add: str_join_def)

text \<open>
  \<open>strings.TrimSpace\<close> strips Unicode white space in UTF-8. \<open>space_width\<close> is the number of bytes
  of the white-space rune a byte sequence starts with, 0 if it starts with none. The encodings
  are those of U+0009--U+000D, U+0020, U+0085, U+00A0, U+1680, U+2000--U+200A, U+2028, U+2029,
  U+202F, U+205F and U+3000.
\<close>

definition is_ascii_space :: "char \<Rightarrow> bool" where
  "is_ascii_space c \<longleftrightarrow> in_byte_range 9 13 c \<or> byte c = 32"

definition is_space2 :: "char \<Rightarrow> char \<Rightarrow> bool" where
  "is_space2 a b \<longleftrightarrow> byte a = 194 \<and> (byte b = 133 \<or> byte b = 160)"

definition is_space3 :: "char \<Rightarrow> char \<Rightarrow> char \<Rightarrow> bool" where
  "is_space3 a b c \<longleftrightarrow>
     byte a = 225 \<and> byte b = 154 \<and> byte c = 128 \<or>
     byte a = 226 \<and> byte b = 128 \<and>
       (in_byte_range 128 138 c \<or> byte c = 168 \<or> byte c = 169 \<or> byte c = 175) \<or>
     byte a = 226 \<and> byte b = 129 \<and> byte c = 159 \<or>
     byte a = 227 \<and> byte b = 128 \<and> byte c = 128"

fun space_width :: "gostring \<Rightarrow> nat" where
  "space_width [] = 0"
| "space_width (a # s) =
     (if is_ascii_space a then 1
      else case s of [] \<Rightarrow> 0
        | b # s' \<Rightarrow> if is_space2 a b then 2
            else (case s' of [] \<Rightarrow> 0 | c # _ \<Rightarrow> if is_space3 a b c then 3 else 0))"

text \<open>The same for the end of a string, read from its reversal.\<close>

fun space_width_rev :: "gostring \<Rightarrow> nat" where
  "space_width_rev [] = 0"
| "space_width_rev (a # s) =
     (if is_ascii_space a then 1
      else case s of [] \<Rightarrow> 0
        | b # s' \<Rightarrow> if is_space2 b a then 2
            else (case s' of [] \<Rightarrow> 0 | c # _ \<Rightarrow> if is_space3 c b a then 3 else 0))"

function trim_left_space :: "gostring \<Rightarrow> gostring" where
  "trim_left_space s =
     (if space_width s = 0 then s else trim_left_space (drop (space_width s) s))"
  by pat_completeness auto
termination
proof (relation "measure length")
  fix s :: gostring
  assume "space_width s \<noteq> 0"
  then show "(drop (space_width s) s, s) \<in> measure length" by (cases s) auto
qed simp

function trim_right_rev :: "gostring \<Rightarrow> gostring" where
  "trim_right_rev s =
     (if space_width_rev s = 0 then s else trim_right_rev (drop (space_width_rev s) s))"
  by pat_completeness auto
termination
proof (relation "measure length")
  fix s :: gostring
  assume "space_width_rev s \<noteq> 0"
  then show "(drop (space_width_rev s) s, s) \<in> measure length" by (cases s) auto
qed simp

declare trim_left_space.simps [simp del]
declare trim_right_rev.simps [simp del]

definition trim_space :: "gostring \<Rightarrow> gostring" where
  "trim_space s = rev (trim_right_rev (rev (trim_left_space s)))"

lemma trim_left_suffix: "\<exists>p. s = p @ trim_left_space s"
proof (induction s rule: trim_left_space.induct)
  case (1 s)
  show ?case
  proof (cases "space_width s = 0")
    case True
    then show ?thesis by (simp add: trim_left_space.simps [of s])
  next
    case False
    then obtain p where "drop (space_width s) s = p @ trim_left_space (drop (space_width s) s)"
      using 1 by blast
    then have "s = (take (space_width s) s @ p) @ trim_left_space (drop (space_width s) s)"
      by (metis append.assoc append_take_drop_id)
    then show ?thesis using False by (metis trim_left_space.simps)
  qed
qed

lemma trim_right_rev_suffix: "\<exists>p. s = p @ trim_right_rev s"
proof (induction s rule: trim_right_rev.induct)
  case (1 s)
  show ?case
  proof (cases "space_width_rev s = 0")
    case True
    then show ?thesis by (simp add: trim_right_rev.simps [of s])
  next
    case False
    then obtain p where "drop (space_width_rev s) s = p @ trim_right_rev (drop (space_width_rev s) s)"
      using 1 by blast
    then have "s = (take (space_width_rev s) s @ p) @ trim_right_rev (drop (space_width_rev s) s)"
      by (metis append.assoc append_take_drop_id)
    then show ?thesis using False by (metis trim_right_rev.simps)
  qed
qed

lemma trim_space_infix: "\<exists>a b. s = a @ trim_space s @ b"
proof -
  obtain a where a: "s = a @ trim_left_space s" using trim_left_suffix by blast
  obtain b where "rev (trim_left_space s) = b @ trim_right_rev (rev (trim_left_space s))"
    using trim_right_rev_suffix by blast
  then have "trim_left_space s = trim_space s @ rev b"
    unfolding trim_space_def by (metis rev_append rev_rev_ident)
  with a show ?thesis by metis
qed

lemma set_trim_space: "set (trim_space s) \<subseteq> set s"
  using trim_space_infix [of s] by (metis Un_iff set_append subsetI)

lemma length_trim_space: "length (trim_space s) \<le> length s"
  using trim_space_infix [of s] by (metis le_add1 le_add2 le_trans length_append)

text \<open>A string that neither starts nor ends with white space is left alone.\<close>

definition no_outer_space :: "gostring \<Rightarrow> bool" where
  "no_outer_space s \<longleftrightarrow> space_width s = 0 \<and> space_width_rev (rev s) = 0"

lemma trim_space_id: "no_outer_space s \<Longrightarrow> trim_space s = s"
  by (simp add: no_outer_space_def trim_space_def trim_left_space.simps [of s]
      trim_right_rev.simps [of "rev s"])

lemma trim_space_Nil [simp]: "trim_space [] = []"
  by (rule trim_space_id) (simp add: no_outer_space_def)

section \<open>Numbers\<close>

text \<open>The decimal numeral of \<open>fmt.Sprintf("%d")\<close> and \<open>strconv.Itoa\<close>.\<close>

definition digit_char :: "nat \<Rightarrow> char" where
  "digit_char d = char_of (48 + d)"

fun nat_dec :: "nat \<Rightarrow> gostring" where
  "nat_dec n = (if n < 10 then [digit_char n] else nat_dec (n div 10) @ [digit_char (n mod 10)])"

declare nat_dec.simps [simp del]

definition int_dec :: "int \<Rightarrow> gostring" where
  "int_dec i = (if i < 0 then ''-'' @ nat_dec (nat (- i)) else nat_dec (nat i))"

lemma byte_digit_char: "d < 10 \<Longrightarrow> byte (digit_char d) = 48 + d"
  by (simp add: byte_def digit_char_def)

lemma is_digit_digit_char: "d < 10 \<Longrightarrow> is_digit_ascii (digit_char d)"
  by (simp add: is_digit_ascii_def in_byte_range_def byte_digit_char)

lemma nat_dec_nonempty [simp]: "nat_dec n \<noteq> []"
  by (subst nat_dec.simps) simp

lemma nat_dec_digits: "c \<in> set (nat_dec n) \<Longrightarrow> is_digit_ascii c"
proof (induction n rule: nat_dec.induct)
  case (1 n)
  show ?case
  proof (cases "n < 10")
    case True
    with "1.prems" show ?thesis by (simp add: nat_dec.simps [of n] is_digit_digit_char)
  next
    case False
    with 1 show ?thesis by (auto simp: nat_dec.simps [of n] is_digit_digit_char)
  qed
qed

text \<open>The value of a digit string, as \<open>strconv.Atoi\<close> computes it.\<close>

definition dec_value :: "gostring \<Rightarrow> nat" where
  "dec_value s = foldl (\<lambda>n c. 10 * n + (byte c - 48)) 0 s"

lemma dec_value_snoc [simp]: "dec_value (s @ [c]) = 10 * dec_value s + (byte c - 48)"
  by (simp add: dec_value_def)

lemma dec_value_nat_dec [simp]: "dec_value (nat_dec n) = n"
proof (induction n rule: nat_dec.induct)
  case (1 n)
  show ?case
  proof (cases "n < 10")
    case True
    then show ?thesis by (simp add: nat_dec.simps [of n] dec_value_def byte_digit_char)
  next
    case False
    with 1 show ?thesis by (simp add: nat_dec.simps [of n] byte_digit_char)
  qed
qed

lemma nat_dec_inj: "nat_dec m = nat_dec n \<Longrightarrow> m = n"
  by (metis dec_value_nat_dec)

lemma length_nat_dec: "n < 10 ^ k \<Longrightarrow> 0 < k \<Longrightarrow> length (nat_dec n) \<le> k"
proof (induction n arbitrary: k rule: nat_dec.induct)
  case (1 n)
  show ?case
  proof (cases "n < 10")
    case True
    with "1.prems" show ?thesis by (simp add: nat_dec.simps [of n])
  next
    case False
    with "1.prems" obtain j where k: "k = Suc j" and j: "0 < j"
      by (cases k; cases "k - 1") auto
    with "1.prems" have "n div 10 < 10 ^ j" by auto
    with "1.IH" False j have "length (nat_dec (n div 10)) \<le> j" by blast
    with False k show ?thesis by (simp add: nat_dec.simps [of n])
  qed
qed

section \<open>Lines of a reader\<close>

text \<open>
  An \<open>io.Reader\<close> is the bytes it delivers and the error that ends it, \<open>None\<close> for end of file.
  \<open>scan_lines\<close> is \<open>bufio.Scanner\<close> with \<open>ScanLines\<close>: lines end at a line feed, one carriage return
  before it is dropped, a last line without a line feed counts, and a line that does not fit the
  64 KiB buffer stops the scan with \<open>bufio.ErrTooLong\<close>. The result is the delivered lines and what
  \<open>Err\<close> returns afterwards.
\<close>

datatype scan_error = ScanTooLong | ScanRead gostring

record go_reader =
  rd_data :: gostring
  rd_err :: "gostring option"

definition max_scan_token :: nat where
  "max_scan_token = 65536"

definition drop_cr :: "gostring \<Rightarrow> gostring" where
  "drop_cr l = (if l \<noteq> [] \<and> byte (last l) = 13 then butlast l else l)"

definition is_nl :: "char \<Rightarrow> bool" where
  "is_nl c \<longleftrightarrow> byte c = 10"

function scan_loop :: "gostring \<Rightarrow> gostring option \<Rightarrow> gostring list \<times> scan_error option" where
  "scan_loop s e =
     (let l = takeWhile (\<lambda>c. \<not> is_nl c) s; rest = dropWhile (\<lambda>c. \<not> is_nl c) s in
      if max_scan_token \<le> length l then ([], Some ScanTooLong)
      else if rest = [] then ((if s = [] then [] else [drop_cr l]), map_option ScanRead e)
      else (let (ls, r) = scan_loop (tl rest) e in (drop_cr l # ls, r)))"
  by pat_completeness auto
termination
proof (relation "measure (\<lambda>(s, e). length s)")
  fix s :: gostring and e x xa
  assume rest: "xa = dropWhile (\<lambda>c. \<not> is_nl c) s" "xa \<noteq> []"
  then have "length (tl xa) < length xa" by (cases xa) auto
  also have "length xa \<le> length s" using rest(1) by (simp add: length_dropWhile_le)
  finally show "((tl xa, e), (s, e)) \<in> measure (\<lambda>(s, e). length s)" by simp
qed simp

declare scan_loop.simps [simp del]

definition scan_lines :: "go_reader \<Rightarrow> gostring list \<times> scan_error option" where
  "scan_lines r = scan_loop (rd_data r) (rd_err r)"

text \<open>A text written as lines is read back as those lines.\<close>

definition plain_line :: "gostring \<Rightarrow> bool" where
  "plain_line l \<longleftrightarrow> (\<forall>c \<in> set l. byte c \<noteq> 10 \<and> byte c \<noteq> 13) \<and> length l < max_scan_token"

definition unlines :: "gostring list \<Rightarrow> gostring" where
  "unlines ls = concat (map (\<lambda>l. l @ [CHR 0x0A]) ls)"

lemma is_nl_nl [simp]: "is_nl (CHR 0x0A)"
  by (simp add: is_nl_def byte_def)

lemma drop_cr_plain: "plain_line l \<Longrightarrow> drop_cr l = l"
  by (auto simp: drop_cr_def plain_line_def)

lemma scan_loop_unlines: "\<forall>l \<in> set ls. plain_line l \<Longrightarrow> scan_loop (unlines ls) None = (ls, None)"
proof (induction ls)
  case Nil
  then show ?case by (simp add: unlines_def scan_loop.simps max_scan_token_def)
next
  case (Cons l ls)
  let ?s = "unlines (l # ls)"
  have l: "plain_line l" using Cons.prems by simp
  then have nonl: "\<forall>c \<in> set l. \<not> is_nl c" by (simp add: plain_line_def is_nl_def)
  have s: "?s = l @ CHR 0x0A # unlines ls" by (simp add: unlines_def)
  have tw: "takeWhile (\<lambda>c. \<not> is_nl c) ?s = l" and dw: "dropWhile (\<lambda>c. \<not> is_nl c) ?s = CHR 0x0A # unlines ls"
    unfolding s using nonl by simp_all
  have len: "\<not> max_scan_token \<le> length l" using l by (simp add: plain_line_def)
  show ?case
    using Cons by (subst scan_loop.simps) (simp add: tw dw len Let_def drop_cr_plain [OF l])
qed

section \<open>Lists related elementwise\<close>

lemma list_all2_functional_set:
  "list_all2 P xs ys \<Longrightarrow> (\<And>x y z. P x y \<Longrightarrow> P x z \<Longrightarrow> y = z) \<Longrightarrow>
     y \<in> set ys \<longleftrightarrow> (\<exists>x \<in> set xs. P x y)"
  by (induction rule: list_all2_induct) auto

lemma ex_list_all2: "(\<exists>ys. list_all2 P xs ys) \<longleftrightarrow> list_all (\<lambda>x. \<exists>y. P x y) xs"
  by (induction xs) (auto simp: list_all2_Cons1)

section \<open>Association lists\<close>

lemma map_of_mset_eq:
  assumes "distinct (map fst xs)" and "mset xs = mset ys"
  shows "map_of xs = map_of ys"
proof -
  have "set xs = set ys" using assms(2) by (metis set_mset_mset)
  moreover have "distinct (map fst ys)"
    using assms by (metis mset_eq_imp_distinct_iff mset_map)
  ultimately show ?thesis using assms(1) by (metis map_of_inject_set)
qed

text \<open>Sorting by a key no two elements share does not depend on the order of the input.\<close>

lemma sort_key_unique:
  fixes f :: "'a \<Rightarrow> 'k::linorder"
  assumes "mset xs = mset ys" and "distinct (map f xs)"
  shows "sort_key f xs = sort_key f ys"
proof (rule map_sorted_distinct_set_unique [of f])
  have set: "set xs = set ys" using assms(1) by (metis set_mset_mset)
  have dy: "distinct (map f ys)" using assms by (metis mset_eq_imp_distinct_iff mset_map)
  show "inj_on f (set (sort_key f xs) \<union> set (sort_key f ys))"
    using assms(2) set by (simp add: distinct_map)
  show "distinct (map f (sort_key f xs))"
    using assms(2) by (metis mset_eq_imp_distinct_iff mset_map mset_sort)
  show "distinct (map f (sort_key f ys))"
    using dy by (metis mset_eq_imp_distinct_iff mset_map mset_sort)
  show "set (sort_key f xs) = set (sort_key f ys)" using set by simp
qed simp_all

end
