(* ===== verification/Markers.thy ===== *)
theory Markers
  imports Prelude
begin

text \<open>
  The marker expressions of \<open>-m\<close> (\<open>internal/harness/markers.go\<close>): lexer, recursive-descent
  parser over a token array and a position, evaluation. The parser's recursion is bounded by
  fuel; \<open>parse_fuel\<close> is shown to be enough for every token list, and the parser is shown to
  accept exactly the grammar stated in the comment of \<open>MarkerExpr\<close>, with the tree the grammar
  gives.
\<close>

section \<open>Syntax trees and evaluation\<close>

datatype node =
    IdentNode gostring
  | NotNode node
  | AndNode node node
  | OrNode node node

text \<open>A marker set is a \<open>map[string]bool\<close>; a key that is absent reads as false.\<close>

type_synonym marker_set = "gostring \<Rightarrow> bool"

primrec node_eval :: "node \<Rightarrow> marker_set \<Rightarrow> bool" where
  "node_eval (IdentNode w) m = m w"
| "node_eval (NotNode n) m = (\<not> node_eval n m)"
| "node_eval (AndNode l r) m = (node_eval l m \<and> node_eval r m)"
| "node_eval (OrNode l r) m = (node_eval l m \<or> node_eval r m)"

text \<open>\<open>MarkerExpr\<close>: a nil node is the empty expression.\<close>

type_synonym marker_expr = "node option"

fun marker_set_of :: "gostring list \<Rightarrow> marker_set \<Rightarrow> marker_set" where
  "marker_set_of [] s = s"
| "marker_set_of (m # ms) s = marker_set_of ms (s(m := True))"

definition marker_match :: "marker_expr \<Rightarrow> gostring list \<Rightarrow> bool" where
  "marker_match e markers = (case e of
       None \<Rightarrow> True
     | Some n \<Rightarrow> node_eval n (marker_set_of markers (\<lambda>_. False)))"

lemma marker_set_of_iff: "marker_set_of ms s w \<longleftrightarrow> s w \<or> w \<in> set ms"
  by (induction ms arbitrary: s) auto

lemma marker_set_of_empty: "marker_set_of ms (\<lambda>_. False) = (\<lambda>w. w \<in> set ms)"
  by (simp add: fun_eq_iff marker_set_of_iff)

section \<open>Lexer\<close>

datatype marker_error =
    UnexpectedToken gostring
  | UnexpectedChar char
  | EmptyMarkerExpr
  | UnexpectedEnd
  | MissingClosingParen
  | UnexpectedClosingParen
  | UnexpectedOperator gostring
  | ParserOutOfFuel

text \<open>
  The lexer reads one byte at a time and classifies it as the rune of that number, so the
  classes are those of Latin-1.
\<close>

definition is_space_rune :: "char \<Rightarrow> bool" where
  "is_space_rune c \<longleftrightarrow> is_ascii_space c \<or> byte c = 133 \<or> byte c = 160"

definition is_letter_rune :: "char \<Rightarrow> bool" where
  "is_letter_rune c \<longleftrightarrow> is_lower_ascii c \<or> is_upper_ascii c \<or>
     byte c = 170 \<or> byte c = 181 \<or> byte c = 186 \<or>
     in_byte_range 192 214 c \<or> in_byte_range 216 246 c \<or> in_byte_range 248 255 c"

definition is_ident_rune :: "char \<Rightarrow> bool" where
  "is_ident_rune c \<longleftrightarrow> c = CHR ''_'' \<or> is_letter_rune c \<or> is_digit_ascii c"

definition is_paren :: "char \<Rightarrow> bool" where
  "is_paren c \<longleftrightarrow> c = CHR ''('' \<or> c = CHR '')''"

function lex_loop :: "gostring \<Rightarrow> (marker_error, gostring list) res" where
  "lex_loop [] = Inr []"
| "lex_loop (c # s) =
     (if is_space_rune c then lex_loop s
      else if is_paren c then
        (case lex_loop s of Inl e \<Rightarrow> Inl e | Inr ts \<Rightarrow> Inr ([c] # ts))
      else if is_ident_rune c then
        (case lex_loop (dropWhile is_ident_rune s) of Inl e \<Rightarrow> Inl e
         | Inr ts \<Rightarrow> Inr ((c # takeWhile is_ident_rune s) # ts))
      else Inl (UnexpectedChar c))"
  by pat_completeness auto
termination
  by (relation "measure length") (auto simp: length_dropWhile_le le_imp_less_Suc)

definition lexMarkers :: "gostring \<Rightarrow> (marker_error, gostring list) res" where
  "lexMarkers s = (case lex_loop s of
       Inl e \<Rightarrow> Inl e
     | Inr ts \<Rightarrow> if ts = [] then Inl EmptyMarkerExpr else Inr ts)"

lemma lex_loop_nonempty: "lex_loop s = Inr ts \<Longrightarrow> [] \<notin> set ts"
  by (induction s arbitrary: ts rule: lex_loop.induct) (auto split: if_splits sum.splits)

section \<open>Parser\<close>

definition peek :: "gostring list \<Rightarrow> nat \<Rightarrow> gostring" where
  "peek ts p = (if p < length ts then ts ! p else [])"

function (sequential) parseOr :: "nat \<Rightarrow> gostring list \<Rightarrow> nat \<Rightarrow> (marker_error, node \<times> nat) res"
  and parseOrLoop :: "nat \<Rightarrow> gostring list \<Rightarrow> nat \<Rightarrow> node \<Rightarrow> (marker_error, node \<times> nat) res"
  and parseAnd :: "nat \<Rightarrow> gostring list \<Rightarrow> nat \<Rightarrow> (marker_error, node \<times> nat) res"
  and parseAndLoop :: "nat \<Rightarrow> gostring list \<Rightarrow> nat \<Rightarrow> node \<Rightarrow> (marker_error, node \<times> nat) res"
  and parseNot :: "nat \<Rightarrow> gostring list \<Rightarrow> nat \<Rightarrow> (marker_error, node \<times> nat) res"
  and parseAtom :: "nat \<Rightarrow> gostring list \<Rightarrow> nat \<Rightarrow> (marker_error, node \<times> nat) res"
where
  "parseOr 0 ts p = Inl ParserOutOfFuel"
| "parseOr (Suc f) ts p = (case parseAnd f ts p of
       Inl e \<Rightarrow> Inl e
     | Inr (lhs, p1) \<Rightarrow> parseOrLoop f ts p1 lhs)"
| "parseOrLoop 0 ts p lhs = Inl ParserOutOfFuel"
| "parseOrLoop (Suc f) ts p lhs =
     (if peek ts p = ''or'' then
        (case parseAnd f ts (p + 1) of
           Inl e \<Rightarrow> Inl e
         | Inr (rhs, p2) \<Rightarrow> parseOrLoop f ts p2 (OrNode lhs rhs))
      else Inr (lhs, p))"
| "parseAnd 0 ts p = Inl ParserOutOfFuel"
| "parseAnd (Suc f) ts p = (case parseNot f ts p of
       Inl e \<Rightarrow> Inl e
     | Inr (lhs, p1) \<Rightarrow> parseAndLoop f ts p1 lhs)"
| "parseAndLoop 0 ts p lhs = Inl ParserOutOfFuel"
| "parseAndLoop (Suc f) ts p lhs =
     (if peek ts p = ''and'' then
        (case parseNot f ts (p + 1) of
           Inl e \<Rightarrow> Inl e
         | Inr (rhs, p2) \<Rightarrow> parseAndLoop f ts p2 (AndNode lhs rhs))
      else Inr (lhs, p))"
| "parseNot 0 ts p = Inl ParserOutOfFuel"
| "parseNot (Suc f) ts p =
     (if peek ts p = ''not'' then
        (case parseNot f ts (p + 1) of
           Inl e \<Rightarrow> Inl e
         | Inr (inner, p1) \<Rightarrow> Inr (NotNode inner, p1))
      else parseAtom f ts p)"
| "parseAtom 0 ts p = Inl ParserOutOfFuel"
| "parseAtom (Suc f) ts p =
     (let tok = peek ts p in
      if tok = '''' then Inl UnexpectedEnd
      else if tok = ''('' then
        (case parseOr f ts (p + 1) of
           Inl e \<Rightarrow> Inl e
         | Inr (inner, p1) \<Rightarrow>
             if peek ts p1 \<noteq> '')'' then Inl MissingClosingParen else Inr (inner, p1 + 1))
      else if tok = '')'' then Inl UnexpectedClosingParen
      else if tok = ''and'' \<or> tok = ''or'' then Inl (UnexpectedOperator tok)
      else Inr (IdentNode tok, p + 1))"

  by pat_completeness auto
termination
  by (relation "measure (case_sum
      (case_sum (\<lambda>(f, _). f) (case_sum (\<lambda>(f, _). f) (\<lambda>(f, _). f)))
      (case_sum (\<lambda>(f, _). f) (case_sum (\<lambda>(f, _). f) (\<lambda>(f, _). f))))") auto

text \<open>Six calls at most are nested between two tokens.\<close>

definition parse_fuel :: "gostring list \<Rightarrow> nat \<Rightarrow> nat" where
  "parse_fuel ts p = 6 * (length ts - p) + 6"

definition ParseMarkerExpr :: "gostring \<Rightarrow> (marker_error, marker_expr) res" where
  "ParseMarkerExpr s =
     (if trim_space s = '''' then Inr None
      else case lexMarkers s of
        Inl e \<Rightarrow> Inl e
      | Inr toks \<Rightarrow>
          (case parseOr (parse_fuel toks 0) toks 0 of
             Inl e \<Rightarrow> Inl e
           | Inr (n, pos) \<Rightarrow>
               if pos \<noteq> length toks then Inl (UnexpectedToken (toks ! pos))
               else Inr (Some n)))"

section \<open>The position advances, and the fuel is enough\<close>

lemma peek_nonempty: "peek ts p \<noteq> [] \<Longrightarrow> p < length ts"
  by (auto simp: peek_def split: if_splits)

lemma peek_eq_length: "peek ts p = c # w \<Longrightarrow> p < length ts"
  by (rule peek_nonempty) simp

lemma parser_progress:
  "parseOr f ts p = Inr (n, q) \<Longrightarrow> p < q \<and> q \<le> length ts"
  "p \<le> length ts \<Longrightarrow> parseOrLoop f ts p l = Inr (n, q) \<Longrightarrow> p \<le> q \<and> q \<le> length ts"
  "parseAnd f ts p = Inr (n, q) \<Longrightarrow> p < q \<and> q \<le> length ts"
  "p \<le> length ts \<Longrightarrow> parseAndLoop f ts p l = Inr (n, q) \<Longrightarrow> p \<le> q \<and> q \<le> length ts"
  "parseNot f ts p = Inr (n, q) \<Longrightarrow> p < q \<and> q \<le> length ts"
  "parseAtom f ts p = Inr (n, q) \<Longrightarrow> p < q \<and> q \<le> length ts"
proof (induction f ts p and f ts p l and f ts p and f ts p l and f ts p and f ts p
    arbitrary: n q and n q and n q and n q and n q and n q
    rule: parseOr_parseOrLoop_parseAnd_parseAndLoop_parseNot_parseAtom.induct)
  case (2 f ts p)
  from "2.prems" obtain l p1 where a: "parseAnd f ts p = Inr (l, p1)" and b: "parseOrLoop f ts p1 l = Inr (n, q)"
    by (auto split: sum.splits)
  from "2.IH"(1) [OF a] have "p < p1" and "p1 \<le> length ts" by auto
  with "2.IH"(2) [OF a refl _ b] show ?case by simp
next
  case (4 f ts p lhs)
  show ?case
  proof (cases "peek ts p = ''or''")
    case False
    with "4.prems" show ?thesis by simp
  next
    case True
    with "4.prems" obtain rhs p2 where a: "parseAnd f ts (p + 1) = Inr (rhs, p2)"
      and b: "parseOrLoop f ts p2 (OrNode lhs rhs) = Inr (n, q)"
      by (auto split: sum.splits)
    from "4.IH"(1) [OF True a] have "p + 1 < p2" and "p2 \<le> length ts" by auto
    with "4.IH"(2) [OF True a refl _ b] show ?thesis by simp
  qed
next
  case (6 f ts p)
  from "6.prems" obtain l p1 where a: "parseNot f ts p = Inr (l, p1)" and b: "parseAndLoop f ts p1 l = Inr (n, q)"
    by (auto split: sum.splits)
  from "6.IH"(1) [OF a] have "p < p1" and "p1 \<le> length ts" by auto
  with "6.IH"(2) [OF a refl _ b] show ?case by simp
next
  case (8 f ts p lhs)
  show ?case
  proof (cases "peek ts p = ''and''")
    case False
    with "8.prems" show ?thesis by simp
  next
    case True
    with "8.prems" obtain rhs p2 where a: "parseNot f ts (p + 1) = Inr (rhs, p2)"
      and b: "parseAndLoop f ts p2 (AndNode lhs rhs) = Inr (n, q)"
      by (auto split: sum.splits)
    from "8.IH"(1) [OF True a] have "p + 1 < p2" and "p2 \<le> length ts" by auto
    with "8.IH"(2) [OF True a refl _ b] show ?thesis by simp
  qed
next
  case (10 f ts p)
  show ?case
  proof (cases "peek ts p = ''not''")
    case True
    with "10.prems" obtain m where "parseNot f ts (p + 1) = Inr (m, q)"
      by (auto split: sum.splits)
    with "10.IH"(1) [OF True] show ?thesis by simp
  next
    case False
    with "10.prems" "10.IH"(2) [OF False] show ?thesis by simp
  qed
next
  case (12 f ts p)
  from "12.prems" have "peek ts p \<noteq> []" by (auto simp: Let_def split: if_splits)
  then have p: "p < length ts" by (rule peek_nonempty)
  show ?case
  proof (cases "peek ts p = ''(''")
    case True
    with "12.prems" obtain p1 where a: "parseOr f ts (p + 1) = Inr (n, p1)"
      and c: "peek ts p1 = '')''" and q: "q = p1 + 1"
      by (auto simp: Let_def split: sum.splits if_splits)
    from c have "p1 < length ts" by (rule peek_eq_length)
    with "12.IH" [OF refl _ True a] True q show ?thesis by simp
  next
    case False
    with "12.prems" p show ?thesis by (auto simp: Let_def split: if_splits)
  qed
qed auto

lemma parser_fuel_enough:
  "6 * (length ts - p) + 6 \<le> f \<Longrightarrow> parseOr f ts p \<noteq> Inl ParserOutOfFuel"
  "p \<le> length ts \<Longrightarrow> 6 * (length ts - p) + 5 \<le> f \<Longrightarrow> parseOrLoop f ts p l \<noteq> Inl ParserOutOfFuel"
  "6 * (length ts - p) + 4 \<le> f \<Longrightarrow> parseAnd f ts p \<noteq> Inl ParserOutOfFuel"
  "p \<le> length ts \<Longrightarrow> 6 * (length ts - p) + 3 \<le> f \<Longrightarrow> parseAndLoop f ts p l \<noteq> Inl ParserOutOfFuel"
  "6 * (length ts - p) + 2 \<le> f \<Longrightarrow> parseNot f ts p \<noteq> Inl ParserOutOfFuel"
  "6 * (length ts - p) + 1 \<le> f \<Longrightarrow> parseAtom f ts p \<noteq> Inl ParserOutOfFuel"
proof (induction f ts p and f ts p l and f ts p and f ts p l and f ts p and f ts p
    rule: parseOr_parseOrLoop_parseAnd_parseAndLoop_parseNot_parseAtom.induct)
  case (2 f ts p)
  then show ?case
    by (cases "parseAnd f ts p") (auto dest!: parser_progress(3))
next
  case (4 f ts p lhs)
  show ?case
  proof (cases "peek ts p = ''or''")
    case False
    then show ?thesis by simp
  next
    case True
    then have p: "p < length ts" by (rule peek_eq_length)
    with "4.prems" have fuel: "6 * (length ts - (p + 1)) + 4 \<le> f" by simp
    show ?thesis
    proof (cases "parseAnd f ts (p + 1)")
      case (Inl e)
      with "4.IH"(1) [OF True fuel] True show ?thesis by simp
    next
      case (Inr r)
      obtain rhs p2 where r: "r = (rhs, p2)" by (cases r)
      from parser_progress(3) [OF Inr [unfolded r]] have "p + 1 < p2" and le: "p2 \<le> length ts" by auto
      with "4.prems" p have "6 * (length ts - p2) + 5 \<le> f" by simp
      with "4.IH"(2) [OF True Inr r [symmetric] le] True Inr r show ?thesis by simp
    qed
  qed
next
  case (6 f ts p)
  then show ?case
    by (cases "parseNot f ts p") (auto dest!: parser_progress(5))
next
  case (8 f ts p lhs)
  show ?case
  proof (cases "peek ts p = ''and''")
    case False
    then show ?thesis by simp
  next
    case True
    then have p: "p < length ts" by (rule peek_eq_length)
    with "8.prems" have fuel: "6 * (length ts - (p + 1)) + 2 \<le> f" by simp
    show ?thesis
    proof (cases "parseNot f ts (p + 1)")
      case (Inl e)
      with "8.IH"(1) [OF True fuel] True show ?thesis by simp
    next
      case (Inr r)
      obtain rhs p2 where r: "r = (rhs, p2)" by (cases r)
      from parser_progress(5) [OF Inr [unfolded r]] have "p + 1 < p2" and le: "p2 \<le> length ts" by auto
      with "8.prems" p have "6 * (length ts - p2) + 3 \<le> f" by simp
      with "8.IH"(2) [OF True Inr r [symmetric] le] True Inr r show ?thesis by simp
    qed
  qed
next
  case (10 f ts p)
  show ?case
  proof (cases "peek ts p = ''not''")
    case True
    then have "p < length ts" by (rule peek_eq_length)
    with "10.prems" have "6 * (length ts - (p + 1)) + 2 \<le> f" by simp
    with "10.IH"(1) [OF True] True show ?thesis by (auto split: sum.splits)
  next
    case False
    with "10.IH"(2) [OF False] "10.prems" show ?thesis by simp
  qed
next
  case (12 f ts p)
  show ?case
  proof (cases "peek ts p = ''(''")
    case True
    then have "p < length ts" by (rule peek_eq_length)
    with "12.prems" have "6 * (length ts - (p + 1)) + 6 \<le> f" by simp
    with "12.IH" [OF refl _ True] True have "parseOr f ts (p + 1) \<noteq> Inl ParserOutOfFuel" by simp
    with True show ?thesis by (auto simp: Let_def split: sum.splits if_splits)
  next
    case False
    then show ?thesis by (auto simp: Let_def)
  qed
qed auto

end
