(* ===== verification/Marker_Grammar.thy ===== *)
theory Marker_Grammar
  imports Markers
begin

text \<open>
  The grammar in the comment of \<open>MarkerExpr\<close> as an inductive relation between token lists and
  trees, the equations of the parser with its fuel removed, and the equivalence of the two.
\<close>

section \<open>The documented grammar\<close>

definition is_ident_token :: "gostring \<Rightarrow> bool" where
  "is_ident_token w \<longleftrightarrow> w \<notin> {[], ''('', '')'', ''and'', ''or'', ''not''}"

inductive g_or :: "gostring list \<Rightarrow> node \<Rightarrow> bool"
  and g_and :: "gostring list \<Rightarrow> node \<Rightarrow> bool"
  and g_not :: "gostring list \<Rightarrow> node \<Rightarrow> bool"
  and g_atom :: "gostring list \<Rightarrow> node \<Rightarrow> bool"
where
  or_one: "g_and ts n \<Longrightarrow> g_or ts n"
| or_more: "g_or ts l \<Longrightarrow> g_and us r \<Longrightarrow> g_or (ts @ ''or'' # us) (OrNode l r)"
| and_one: "g_not ts n \<Longrightarrow> g_and ts n"
| and_more: "g_and ts l \<Longrightarrow> g_not us r \<Longrightarrow> g_and (ts @ ''and'' # us) (AndNode l r)"
| not_not: "g_not ts n \<Longrightarrow> g_not (''not'' # ts) (NotNode n)"
| not_atom: "g_atom ts n \<Longrightarrow> g_not ts n"
| atom_paren: "g_or ts n \<Longrightarrow> g_atom (''('' # ts @ ['')'']) n"
| atom_ident: "is_ident_token w \<Longrightarrow> g_atom [w] (IdentNode w)"

lemmas grammar_intros = or_one or_more and_one and_more not_not not_atom atom_paren atom_ident

section \<open>Slices of the token array\<close>

definition slice :: "'a list \<Rightarrow> nat \<Rightarrow> nat \<Rightarrow> 'a list" where
  "slice ts p q = take (q - p) (drop p ts)"

lemma slice_append: "p \<le> q \<Longrightarrow> q \<le> r \<Longrightarrow> slice ts p q @ slice ts q r = slice ts p r"
proof -
  assume "p \<le> q" "q \<le> r"
  then have "r - p = (q - p) + (r - q)" and "drop q ts = drop (q - p) (drop p ts)" by simp_all
  then show ?thesis unfolding slice_def by (simp only: take_add)
qed

lemma slice_Suc: "p < q \<Longrightarrow> q \<le> length ts \<Longrightarrow> slice ts p q = ts ! p # slice ts (p + 1) q"
proof -
  assume a: "p < q" "q \<le> length ts"
  then have "drop p ts = ts ! p # drop (Suc p) ts" by (simp add: Cons_nth_drop_Suc)
  moreover from a have "q - p = Suc (q - (p + 1))" by simp
  ultimately show ?thesis by (simp add: slice_def)
qed

lemma slice_full [simp]: "slice ts 0 (length ts) = ts"
  by (simp add: slice_def)

lemma slice_self [simp]: "slice ts p p = []"
  by (simp add: slice_def)

section \<open>Soundness\<close>

lemma parser_sound:
  "parseOr f ts p = Inr (n, q) \<Longrightarrow> g_or (slice ts p q) n"
  "p \<le> length ts \<Longrightarrow> o0 \<le> p \<Longrightarrow> g_or (slice ts o0 p) l \<Longrightarrow> parseOrLoop f ts p l = Inr (n, q)
     \<Longrightarrow> g_or (slice ts o0 q) n"
  "parseAnd f ts p = Inr (n, q) \<Longrightarrow> g_and (slice ts p q) n"
  "p \<le> length ts \<Longrightarrow> o0 \<le> p \<Longrightarrow> g_and (slice ts o0 p) l \<Longrightarrow> parseAndLoop f ts p l = Inr (n, q)
     \<Longrightarrow> g_and (slice ts o0 q) n"
  "parseNot f ts p = Inr (n, q) \<Longrightarrow> g_not (slice ts p q) n"
  "peek ts p \<noteq> ''not'' \<Longrightarrow> parseAtom f ts p = Inr (n, q) \<Longrightarrow> g_atom (slice ts p q) n"
proof (induction f ts p and f ts p l and f ts p and f ts p l and f ts p and f ts p
    arbitrary: n q and o0 n q and n q and o0 n q and n q and n q
    rule: parseOr_parseOrLoop_parseAnd_parseAndLoop_parseNot_parseAtom.induct)
  case (2 f ts p)
  from "2.prems" obtain l p1 where a: "parseAnd f ts p = Inr (l, p1)"
    and b: "parseOrLoop f ts p1 l = Inr (n, q)"
    by (auto split: sum.splits)
  from parser_progress(3) [OF a] have le: "p1 \<le> length ts" "p \<le> p1" by auto
  from "2.IH"(1) [OF a] have "g_or (slice ts p p1) l" by (rule or_one)
  with "2.IH"(2) [OF a refl le _ b] show ?case .
next
  case (4 f ts p lhs)
  show ?case
  proof (cases "peek ts p = ''or''")
    case False
    with "4.prems" show ?thesis by simp
  next
    case True
    with "4.prems" obtain rhs p2 where a: "parseAnd f ts (p + 1) = Inr (rhs, p2)"
      and b: "parseOrLoop f ts p2 (OrNode lhs rhs) = Inr (n, q)"
      by (auto split: sum.splits)
    from parser_progress(3) [OF a] have le: "p2 \<le> length ts" "p + 1 < p2" by auto
    have eq: "slice ts o0 p2 = slice ts o0 p @ ''or'' # slice ts (p + 1) p2"
      using slice_append [of o0 p p2 ts] slice_Suc [of p p2 ts] True le "4.prems"(2)
      by (simp add: peek_def split: if_splits)
    have "g_or (slice ts o0 p2) (OrNode lhs rhs)"
      unfolding eq by (rule or_more [OF "4.prems"(3) "4.IH"(1) [OF True a]])
    with "4.IH"(2) [OF True a refl le(1) _ _ b] "4.prems"(2) le show ?thesis by simp
  qed
next
  case (6 f ts p)
  from "6.prems" obtain l p1 where a: "parseNot f ts p = Inr (l, p1)"
    and b: "parseAndLoop f ts p1 l = Inr (n, q)"
    by (auto split: sum.splits)
  from parser_progress(5) [OF a] have le: "p1 \<le> length ts" "p \<le> p1" by auto
  from "6.IH"(1) [OF a] have "g_and (slice ts p p1) l" by (rule and_one)
  with "6.IH"(2) [OF a refl le _ b] show ?case .
next
  case (8 f ts p lhs)
  show ?case
  proof (cases "peek ts p = ''and''")
    case False
    with "8.prems" show ?thesis by simp
  next
    case True
    with "8.prems" obtain rhs p2 where a: "parseNot f ts (p + 1) = Inr (rhs, p2)"
      and b: "parseAndLoop f ts p2 (AndNode lhs rhs) = Inr (n, q)"
      by (auto split: sum.splits)
    from parser_progress(5) [OF a] have le: "p2 \<le> length ts" "p + 1 < p2" by auto
    have eq: "slice ts o0 p2 = slice ts o0 p @ ''and'' # slice ts (p + 1) p2"
      using slice_append [of o0 p p2 ts] slice_Suc [of p p2 ts] True le "8.prems"(2)
      by (simp add: peek_def split: if_splits)
    have "g_and (slice ts o0 p2) (AndNode lhs rhs)"
      unfolding eq by (rule and_more [OF "8.prems"(3) "8.IH"(1) [OF True a]])
    with "8.IH"(2) [OF True a refl le(1) _ _ b] "8.prems"(2) le show ?thesis by simp
  qed
next
  case (10 f ts p)
  show ?case
  proof (cases "peek ts p = ''not''")
    case True
    with "10.prems" obtain m where m: "parseNot f ts (p + 1) = Inr (m, q)" and n: "n = NotNode m"
      by (auto split: sum.splits)
    from parser_progress(5) [OF m] have "slice ts p q = ''not'' # slice ts (p + 1) q"
      using slice_Suc [of p q ts] True by (simp add: peek_def split: if_splits)
    with "10.IH"(1) [OF True m] n show ?thesis by (simp add: not_not)
  next
    case False
    with "10.prems" "10.IH"(2) [OF False False] show ?thesis by (simp add: not_atom)
  qed
next
  case (12 f ts p)
  from "12.prems"(2) have ne: "peek ts p \<noteq> []" by (auto simp: Let_def split: if_splits)
  then have p: "p < length ts" by (rule peek_nonempty)
  show ?case
  proof (cases "peek ts p = ''(''")
    case True
    with "12.prems" obtain p1 where a: "parseOr f ts (p + 1) = Inr (n, p1)"
      and c: "peek ts p1 = '')''" and q: "q = p1 + 1"
      by (auto simp: Let_def split: sum.splits if_splits)
    from c have p1: "p1 < length ts" by (rule peek_eq_length)
    from parser_progress(1) [OF a] have le: "p + 1 < p1" by simp
    have "slice ts p q = ''('' # slice ts (p + 1) p1 @ ['')'']"
      using slice_Suc [of p q ts] slice_append [of "p + 1" p1 q ts] slice_Suc [of p1 q ts] p1 le q True c p
      by (simp add: peek_def)
    with "12.IH" [OF refl ne True a] show ?thesis by (simp add: atom_paren)
  next
    case False
    with "12.prems" p show ?thesis
      using slice_Suc [of p "p + 1" ts] atom_ident [of "ts ! p"]
      by (auto simp: Let_def is_ident_token_def peek_def split: if_splits)
  qed
qed auto

section \<open>The parser without fuel\<close>

lemma parser_fuel_mono:
  "parseOr f ts p \<noteq> Inl ParserOutOfFuel \<Longrightarrow> f \<le> f' \<Longrightarrow> parseOr f' ts p = parseOr f ts p"
  "parseOrLoop f ts p l \<noteq> Inl ParserOutOfFuel \<Longrightarrow> f \<le> f' \<Longrightarrow> parseOrLoop f' ts p l = parseOrLoop f ts p l"
  "parseAnd f ts p \<noteq> Inl ParserOutOfFuel \<Longrightarrow> f \<le> f' \<Longrightarrow> parseAnd f' ts p = parseAnd f ts p"
  "parseAndLoop f ts p l \<noteq> Inl ParserOutOfFuel \<Longrightarrow> f \<le> f' \<Longrightarrow> parseAndLoop f' ts p l = parseAndLoop f ts p l"
  "parseNot f ts p \<noteq> Inl ParserOutOfFuel \<Longrightarrow> f \<le> f' \<Longrightarrow> parseNot f' ts p = parseNot f ts p"
  "parseAtom f ts p \<noteq> Inl ParserOutOfFuel \<Longrightarrow> f \<le> f' \<Longrightarrow> parseAtom f' ts p = parseAtom f ts p"
proof (induction f ts p and f ts p l and f ts p and f ts p l and f ts p and f ts p
    arbitrary: f' and f' and f' and f' and f' and f'
    rule: parseOr_parseOrLoop_parseAnd_parseAndLoop_parseNot_parseAtom.induct)
  case (2 f ts p)
  from "2.prems" obtain g where g: "f' = Suc g" "f \<le> g" by (cases f') auto
  have sub: "parseAnd f ts p \<noteq> Inl ParserOutOfFuel" using "2.prems" by auto
  show ?case
  proof (cases "parseAnd f ts p")
    case (Inl e)
    with "2.IH"(1) [OF sub g(2)] g show ?thesis by simp
  next
    case (Inr r)
    obtain l p1 where r: "r = (l, p1)" by (cases r)
    with "2.IH"(1) [OF sub g(2)] "2.IH"(2) [OF Inr r [symmetric] _ g(2)] "2.prems" Inr g
    show ?thesis by simp
  qed
next
  case (4 f ts p lhs)
  from "4.prems" obtain g where g: "f' = Suc g" "f \<le> g" by (cases f') auto
  show ?case
  proof (cases "peek ts p = ''or''")
    case False
    with g show ?thesis by simp
  next
    case True
    have sub: "parseAnd f ts (p + 1) \<noteq> Inl ParserOutOfFuel" using "4.prems" True by auto
    show ?thesis
    proof (cases "parseAnd f ts (p + 1)")
      case (Inl e)
      with "4.IH"(1) [OF True sub g(2)] g True show ?thesis by simp
    next
      case (Inr r)
      obtain l p1 where r: "r = (l, p1)" by (cases r)
      with "4.IH"(1) [OF True sub g(2)] "4.IH"(2) [OF True Inr r [symmetric] _ g(2)] "4.prems" Inr g True
      show ?thesis by simp
    qed
  qed
next
  case (6 f ts p)
  from "6.prems" obtain g where g: "f' = Suc g" "f \<le> g" by (cases f') auto
  have sub: "parseNot f ts p \<noteq> Inl ParserOutOfFuel" using "6.prems" by auto
  show ?case
  proof (cases "parseNot f ts p")
    case (Inl e)
    with "6.IH"(1) [OF sub g(2)] g show ?thesis by simp
  next
    case (Inr r)
    obtain l p1 where r: "r = (l, p1)" by (cases r)
    with "6.IH"(1) [OF sub g(2)] "6.IH"(2) [OF Inr r [symmetric] _ g(2)] "6.prems" Inr g
    show ?thesis by simp
  qed
next
  case (8 f ts p lhs)
  from "8.prems" obtain g where g: "f' = Suc g" "f \<le> g" by (cases f') auto
  show ?case
  proof (cases "peek ts p = ''and''")
    case False
    with g show ?thesis by simp
  next
    case True
    have sub: "parseNot f ts (p + 1) \<noteq> Inl ParserOutOfFuel" using "8.prems" True by auto
    show ?thesis
    proof (cases "parseNot f ts (p + 1)")
      case (Inl e)
      with "8.IH"(1) [OF True sub g(2)] g True show ?thesis by simp
    next
      case (Inr r)
      obtain l p1 where r: "r = (l, p1)" by (cases r)
      with "8.IH"(1) [OF True sub g(2)] "8.IH"(2) [OF True Inr r [symmetric] _ g(2)] "8.prems" Inr g True
      show ?thesis by simp
    qed
  qed
next
  case (10 f ts p)
  from "10.prems" obtain g where g: "f' = Suc g" "f \<le> g" by (cases f') auto
  show ?case
  proof (cases "peek ts p = ''not''")
    case True
    have sub: "parseNot f ts (p + 1) \<noteq> Inl ParserOutOfFuel" using "10.prems" True by auto
    from "10.IH"(1) [OF True sub g(2)] True g show ?thesis by simp
  next
    case False
    with "10.IH"(2) [OF False _ g(2)] "10.prems" g show ?thesis by simp
  qed
next
  case (12 f ts p)
  from "12.prems" obtain g where g: "f' = Suc g" "f \<le> g" by (cases f') auto
  show ?case
  proof (cases "peek ts p = ''(''")
    case True
    have sub: "parseOr f ts (p + 1) \<noteq> Inl ParserOutOfFuel" using "12.prems" True by (auto simp: Let_def)
    from "12.IH" [OF refl _ True sub g(2)] True g show ?thesis by (simp add: Let_def)
  next
    case False
    with g show ?thesis by (simp add: Let_def)
  qed
qed auto

lemmas parser_unfold = parseOr.simps(2) parseOrLoop.simps(2) parseAnd.simps(2)
  parseAndLoop.simps(2) parseNot.simps(2) parseAtom.simps(2)

declare parser_unfold [simp del]

definition pOr :: "gostring list \<Rightarrow> nat \<Rightarrow> (marker_error, node \<times> nat) res" where
  "pOr ts p = parseOr (Suc (6 * (length ts - p) + 5)) ts p"

definition pOrLoop :: "gostring list \<Rightarrow> nat \<Rightarrow> node \<Rightarrow> (marker_error, node \<times> nat) res" where
  "pOrLoop ts p l = parseOrLoop (Suc (6 * (length ts - p) + 4)) ts p l"

definition pAnd :: "gostring list \<Rightarrow> nat \<Rightarrow> (marker_error, node \<times> nat) res" where
  "pAnd ts p = parseAnd (Suc (6 * (length ts - p) + 3)) ts p"

definition pAndLoop :: "gostring list \<Rightarrow> nat \<Rightarrow> node \<Rightarrow> (marker_error, node \<times> nat) res" where
  "pAndLoop ts p l = parseAndLoop (Suc (6 * (length ts - p) + 2)) ts p l"

definition pNot :: "gostring list \<Rightarrow> nat \<Rightarrow> (marker_error, node \<times> nat) res" where
  "pNot ts p = parseNot (Suc (6 * (length ts - p) + 1)) ts p"

definition pAtom :: "gostring list \<Rightarrow> nat \<Rightarrow> (marker_error, node \<times> nat) res" where
  "pAtom ts p = parseAtom (Suc (6 * (length ts - p) + 0)) ts p"

lemma enough_fuel:
  "6 * (length ts - p) + 6 \<le> f \<Longrightarrow> parseOr f ts p = pOr ts p"
  "p \<le> length ts \<Longrightarrow> 6 * (length ts - p) + 5 \<le> f \<Longrightarrow> parseOrLoop f ts p l = pOrLoop ts p l"
  "6 * (length ts - p) + 4 \<le> f \<Longrightarrow> parseAnd f ts p = pAnd ts p"
  "p \<le> length ts \<Longrightarrow> 6 * (length ts - p) + 3 \<le> f \<Longrightarrow> parseAndLoop f ts p l = pAndLoop ts p l"
  "6 * (length ts - p) + 2 \<le> f \<Longrightarrow> parseNot f ts p = pNot ts p"
  "6 * (length ts - p) + 1 \<le> f \<Longrightarrow> parseAtom f ts p = pAtom ts p"
  unfolding pOr_def pOrLoop_def pAnd_def pAndLoop_def pNot_def pAtom_def
  apply (rule parser_fuel_mono(1) [OF parser_fuel_enough(1)]; simp)
  apply (rule parser_fuel_mono(2) [OF parser_fuel_enough(2)]; simp)
  apply (rule parser_fuel_mono(3) [OF parser_fuel_enough(3)]; simp)
  apply (rule parser_fuel_mono(4) [OF parser_fuel_enough(4)]; simp)
  apply (rule parser_fuel_mono(5) [OF parser_fuel_enough(5)]; simp)
  apply (rule parser_fuel_mono(6) [OF parser_fuel_enough(6)]; simp)
  done

lemmas p_unfold =
  pOr_def [unfolded parser_unfold] pOrLoop_def [unfolded parser_unfold]
  pAnd_def [unfolded parser_unfold] pAndLoop_def [unfolded parser_unfold]
  pNot_def [unfolded parser_unfold] pAtom_def [unfolded parser_unfold]

text \<open>The equations of the Go functions, on results the loops reach.\<close>

lemma pOr_eq:
  "pAnd ts p = Inr (l, p1) \<Longrightarrow> pOr ts p = pOrLoop ts p1 l"
proof -
  assume a: "pAnd ts p = Inr (l, p1)"
  then have "parseAnd (6 * (length ts - p) + 5) ts p = Inr (l, p1)" by (simp add: enough_fuel)
  moreover from parser_progress(3) [OF this]
  have "parseOrLoop (6 * (length ts - p) + 5) ts p1 l = pOrLoop ts p1 l" by (intro enough_fuel) auto
  ultimately show ?thesis by (subst p_unfold(1)) simp
qed

lemma pOrLoop_or:
  assumes "peek ts p = ''or''" and "pAnd ts (p + 1) = Inr (r, p1)"
  shows "pOrLoop ts p l = pOrLoop ts p1 (OrNode l r)"
proof -
  have p: "p < length ts" using assms(1) by (rule peek_eq_length)
  then have a: "parseAnd (6 * (length ts - p) + 4) ts (p + 1) = Inr (r, p1)"
    using assms(2) by (simp add: enough_fuel)
  from parser_progress(3) [OF this] p
  have b: "parseOrLoop (6 * (length ts - p) + 4) ts p1 (OrNode l r) = pOrLoop ts p1 (OrNode l r)"
    by (intro enough_fuel) auto
  show ?thesis using a b assms(1) by (subst p_unfold(2)) simp
qed

lemma pOrLoop_stop: "peek ts p \<noteq> ''or'' \<Longrightarrow> pOrLoop ts p l = Inr (l, p)"
  by (subst p_unfold(2)) simp

lemma pAnd_eq:
  assumes "pNot ts p = Inr (l, p1)"
  shows "pAnd ts p = pAndLoop ts p1 l"
proof -
  have a: "parseNot (6 * (length ts - p) + 3) ts p = Inr (l, p1)" using assms by (simp add: enough_fuel)
  from parser_progress(5) [OF this]
  have b: "parseAndLoop (6 * (length ts - p) + 3) ts p1 l = pAndLoop ts p1 l" by (intro enough_fuel) auto
  show ?thesis using a b by (subst p_unfold(3)) simp
qed

lemma pAndLoop_and:
  assumes "peek ts p = ''and''" and "pNot ts (p + 1) = Inr (r, p1)"
  shows "pAndLoop ts p l = pAndLoop ts p1 (AndNode l r)"
proof -
  have p: "p < length ts" using assms(1) by (rule peek_eq_length)
  then have a: "parseNot (6 * (length ts - p) + 2) ts (p + 1) = Inr (r, p1)"
    using assms(2) by (simp add: enough_fuel)
  from parser_progress(5) [OF this] p
  have b: "parseAndLoop (6 * (length ts - p) + 2) ts p1 (AndNode l r) = pAndLoop ts p1 (AndNode l r)"
    by (intro enough_fuel) auto
  show ?thesis using a b assms(1) by (subst p_unfold(4)) simp
qed

lemma pAndLoop_stop: "peek ts p \<noteq> ''and'' \<Longrightarrow> pAndLoop ts p l = Inr (l, p)"
  by (subst p_unfold(4)) simp

lemma pNot_not:
  assumes "peek ts p = ''not''" and "pNot ts (p + 1) = Inr (n, p1)"
  shows "pNot ts p = Inr (NotNode n, p1)"
proof -
  have p: "p < length ts" using assms(1) by (rule peek_eq_length)
  then have a: "parseNot (6 * (length ts - p) + 1) ts (p + 1) = Inr (n, p1)"
    using assms(2) by (simp add: enough_fuel)
  show ?thesis using a assms(1) by (subst p_unfold(5)) simp
qed

lemma pNot_atom: "peek ts p \<noteq> ''not'' \<Longrightarrow> pNot ts p = pAtom ts p"
  by (subst p_unfold(5)) (simp add: pAtom_def)

lemma pAtom_paren:
  assumes "peek ts p = ''(''" and "pOr ts (p + 1) = Inr (n, p1)" and "peek ts p1 = '')''"
  shows "pAtom ts p = Inr (n, p1 + 1)"
proof -
  have p: "p < length ts" using assms(1) by (rule peek_eq_length)
  then have a: "parseOr (6 * (length ts - p)) ts (p + 1) = Inr (n, p1)"
    using assms(2) by (simp add: enough_fuel)
  show ?thesis using a assms by (subst p_unfold(6)) (simp add: Let_def)
qed

lemma pAtom_ident:
  assumes "is_ident_token (peek ts p)"
  shows "pAtom ts p = Inr (IdentNode (peek ts p), p + 1)"
proof -
  show ?thesis using assms by (subst p_unfold(6)) (simp add: Let_def is_ident_token_def)
qed

section \<open>Completeness\<close>

lemma peek_append [simp]: "peek (pre @ us) (length pre + k) = peek us k"
  by (simp add: peek_def nth_append)

lemma peek_append0 [simp]: "peek (pre @ us) (length pre) = peek us 0"
  using peek_append [of pre us 0] by simp

lemma peek_Cons [simp]: "peek (t # ts) 0 = t" "peek (t # ts) (Suc k) = peek ts k"
  by (simp_all add: peek_def)

lemma peek_after [simp]: "peek (pre @ us @ rest) (length pre + length us) = peek rest 0"
  using peek_append0 [of "pre @ us" rest] by simp

text \<open>
  A derivation of a level, read after any prefix and before any rest, brings the parser of the
  level to its loop with the tree of the derivation; the loop stops unless the rest starts with
  the level's operator.
\<close>

lemma grammar_first_token:
  "g_or us n \<Longrightarrow> us \<noteq> []"
  "g_and us n \<Longrightarrow> us \<noteq> []"
  "g_not us n \<Longrightarrow> us \<noteq> []"
  "g_atom us n \<Longrightarrow> us \<noteq> [] \<and> hd us \<noteq> ''not''"
  by (induction us n and us n and us n and us n rule: g_or_g_and_g_not_g_atom.inducts)
    (auto simp: is_ident_token_def)

lemma parser_complete:
  "g_or us n \<Longrightarrow> peek rest 0 \<noteq> ''and'' \<Longrightarrow>
     pOr (pre @ us @ rest) (length pre) = pOrLoop (pre @ us @ rest) (length pre + length us) n"
  "g_and us n \<Longrightarrow>
     pAnd (pre @ us @ rest) (length pre) = pAndLoop (pre @ us @ rest) (length pre + length us) n"
  "g_not us n \<Longrightarrow> pNot (pre @ us @ rest) (length pre) = Inr (n, length pre + length us)"
  "g_atom us n \<Longrightarrow> pAtom (pre @ us @ rest) (length pre) = Inr (n, length pre + length us)"
proof (induction us n and us n and us n and us n
    arbitrary: pre rest and pre rest and pre rest and pre rest
    rule: g_or_g_and_g_not_g_atom.inducts)
  case (or_one us n)
  then show ?case by (intro pOr_eq) (simp add: pAndLoop_stop)
next
  case (or_more us l vs r)
  let ?ts = "pre @ (us @ ''or'' # vs) @ rest"
  have "pOr ?ts (length pre) = pOrLoop ?ts (length pre + length us) l"
    using or_more.IH(1) [of "''or'' # vs @ rest" pre] by simp
  also have "\<dots> = pOrLoop ?ts (length pre + length us + 1 + length vs) (OrNode l r)"
  proof (rule pOrLoop_or)
    show "peek ?ts (length pre + length us) = ''or''"
      using peek_after [of pre us "''or'' # vs @ rest"] by simp
    have "pAnd ((pre @ us @ [''or'']) @ vs @ rest) (length (pre @ us @ [''or'']))
        = Inr (r, length (pre @ us @ [''or'']) + length vs)"
      using or_more.IH(2) [of "pre @ us @ [''or'']" rest] or_more.prems
        peek_after [of "pre @ us @ [''or'']" vs rest]
      by (simp add: pAndLoop_stop del: append_assoc)
    then show "pAnd ?ts (length pre + length us + 1) = Inr (r, length pre + length us + 1 + length vs)"
      by simp
  qed
  finally show ?case by (simp add: add.assoc)
next
  case (and_one us n)
  then show ?case by (intro pAnd_eq) simp
next
  case (and_more us l vs r)
  let ?ts = "pre @ (us @ ''and'' # vs) @ rest"
  have "pAnd ?ts (length pre) = pAndLoop ?ts (length pre + length us) l"
    using and_more.IH(1) [of pre "''and'' # vs @ rest"] by simp
  also have "\<dots> = pAndLoop ?ts (length pre + length us + 1 + length vs) (AndNode l r)"
  proof (rule pAndLoop_and)
    show "peek ?ts (length pre + length us) = ''and''"
      using peek_after [of pre us "''and'' # vs @ rest"] by simp
    show "pNot ?ts (length pre + length us + 1) = Inr (r, length pre + length us + 1 + length vs)"
      using and_more.IH(2) [of "pre @ us @ [''and'']" rest] by simp
  qed
  finally show ?case by (simp add: add.assoc)
next
  case (not_not us n)
  have "pNot ((pre @ [''not'']) @ us @ rest) (length (pre @ [''not'']))
      = Inr (n, length (pre @ [''not'']) + length us)"
    by (rule not_not.IH)
  then show ?case by (simp add: pNot_not)
next
  case (not_atom us n)
  from grammar_first_token(4) [OF not_atom.hyps]
  have "peek (pre @ us @ rest) (length pre) \<noteq> ''not''"
    by (cases us) auto
  with not_atom.IH show ?case by (simp add: pNot_atom)
next
  case (atom_paren us n)
  let ?ts = "pre @ (''('' # us @ ['')'']) @ rest"
  have "pOr ((pre @ [''('']) @ us @ ('')'' # rest)) (length (pre @ [''('']))
      = pOrLoop ((pre @ [''('']) @ us @ ('')'' # rest)) (length (pre @ [''('']) + length us) n"
    by (rule atom_paren.IH) simp
  also have "\<dots> = Inr (n, length (pre @ [''('']) + length us)"
    by (rule pOrLoop_stop) (simp only: peek_after peek_Cons, simp)
  finally have "pOr ?ts (length pre + 1) = Inr (n, length pre + 1 + length us)" by simp
  then have "pAtom ?ts (length pre) = Inr (n, length pre + 1 + length us + 1)"
    using peek_after [of "pre @ [''('']" us "'')'' # rest"] by (intro pAtom_paren) auto
  then show ?case by simp
next
  case (atom_ident w)
  then show ?case using pAtom_ident [of "pre @ [w] @ rest" "length pre"] by simp
qed

theorem parser_iff_grammar:
  "parseOr (parse_fuel ts 0) ts 0 = Inr (n, length ts) \<longleftrightarrow> g_or ts n"
proof
  assume "parseOr (parse_fuel ts 0) ts 0 = Inr (n, length ts)"
  then show "g_or ts n" by (auto dest: parser_sound(1))
next
  assume "g_or ts n"
  then have "pOr ts 0 = pOrLoop ts (length ts) n"
    using parser_complete(1) [of ts n "[]" "[]"] by (simp add: peek_def)
  also have "\<dots> = Inr (n, length ts)" by (rule pOrLoop_stop) (simp add: peek_def)
  finally show "parseOr (parse_fuel ts 0) ts 0 = Inr (n, length ts)"
    by (simp add: pOr_def parse_fuel_def add.commute)
qed

text \<open>The parser's fuel is enough for every token list.\<close>

lemma parse_total: "parseOr (parse_fuel ts 0) ts 0 \<noteq> Inl ParserOutOfFuel"
  by (rule parser_fuel_enough) (simp add: parse_fuel_def)

text \<open>
  C8. A non-blank expression compiles to a tree exactly when its tokens derive that tree in the
  documented grammar (operators left-associative, \<open>not\<close> over \<open>and\<close> over \<open>or\<close>).
\<close>

theorem ParseMarkerExpr_iff_grammar:
  "ParseMarkerExpr s = Inr (Some n) \<longleftrightarrow>
     trim_space s \<noteq> [] \<and> (\<exists>ts. lexMarkers s = Inr ts \<and> g_or ts n)"
proof -
  have "parseOr (parse_fuel ts 0) ts 0 = Inr (m, p) \<and> p = length ts \<and> m = n \<longleftrightarrow>
      g_or ts n \<and> m = n \<and> p = length ts" for ts m p
    using parser_iff_grammar [of ts n] by auto
  then show ?thesis
    by (auto simp: ParseMarkerExpr_def parser_iff_grammar [symmetric] split: sum.splits prod.splits if_splits)
qed

section \<open>Printing and reading back\<close>

definition wf_name :: "gostring \<Rightarrow> bool" where
  "wf_name w \<longleftrightarrow> w \<noteq> [] \<and> (\<forall>c \<in> set w. is_ident_rune c) \<and> w \<notin> {''and'', ''or'', ''not''}"

primrec wf_node :: "node \<Rightarrow> bool" where
  "wf_node (IdentNode w) = wf_name w"
| "wf_node (NotNode n) = wf_node n"
| "wf_node (AndNode l r) = (wf_node l \<and> wf_node r)"
| "wf_node (OrNode l r) = (wf_node l \<and> wf_node r)"

definition paren_if :: "bool \<Rightarrow> gostring list \<Rightarrow> gostring list" where
  "paren_if b ts = (if b then ''('' # ts @ ['')''] else ts)"

text \<open>Tokens of a tree with the fewest parentheses, at a level: 0 \<open>or\<close>, 1 \<open>and\<close>, 2 \<open>not\<close>.\<close>

fun show_node :: "nat \<Rightarrow> node \<Rightarrow> gostring list" where
  "show_node k (IdentNode w) = [w]"
| "show_node k (NotNode n) = paren_if (2 < k) (''not'' # show_node 2 n)"
| "show_node k (AndNode l r) = paren_if (1 < k) (show_node 1 l @ ''and'' # show_node 2 r)"
| "show_node k (OrNode l r) = paren_if (0 < k) (show_node 0 l @ ''or'' # show_node 1 r)"

lemma rune_classes:
  "is_space_rune (CHR '' '')" "\<not> is_ident_rune (CHR '' '')"
  "\<not> is_ident_rune (CHR ''('')" "\<not> is_ident_rune (CHR '')'')"
  "is_ident_rune c \<Longrightarrow> \<not> is_space_rune c" "is_ident_rune c \<Longrightarrow> \<not> is_paren c"
  "is_paren c \<Longrightarrow> \<not> is_space_rune c"
  by (auto simp: is_space_rune_def is_ascii_space_def is_ident_rune_def is_letter_rune_def is_paren_def
      is_lower_ascii_def is_upper_ascii_def is_digit_ascii_def in_byte_range_def byte_def)

lemma wf_name_ident_token: "wf_name w \<Longrightarrow> is_ident_token w"
  by (auto simp: wf_name_def is_ident_token_def rune_classes)

lemma show_node_grammar:
  "wf_node n \<Longrightarrow> g_or (show_node 0 n) n \<and> g_and (show_node 1 n) n \<and> g_not (show_node 2 n) n"
proof (induction n)
  case (IdentNode w)
  then show ?case by (auto intro!: grammar_intros simp: wf_name_ident_token)
next
  case (NotNode n)
  then show ?case by (auto simp: paren_if_def intro: grammar_intros)
next
  case (AndNode l r)
  then have a: "g_and (show_node 1 l @ ''and'' # show_node 2 r) (AndNode l r)"
    by (auto intro: and_more)
  then have "g_not (''('' # (show_node 1 l @ ''and'' # show_node 2 r) @ ['')'']) (AndNode l r)"
    by (intro not_atom atom_paren or_one)
  with a show ?case by (auto simp: paren_if_def intro: or_one)
next
  case (OrNode l r)
  then have a: "g_or (show_node 0 l @ ''or'' # show_node 1 r) (OrNode l r)"
    by (auto intro: or_more)
  then have "g_not (''('' # (show_node 0 l @ ''or'' # show_node 1 r) @ ['')'']) (OrNode l r)"
    by (intro not_atom atom_paren)
  with a show ?case by (auto simp: paren_if_def intro: and_one)
qed

definition good_token :: "gostring \<Rightarrow> bool" where
  "good_token t \<longleftrightarrow> t = ''('' \<or> t = '')'' \<or> t \<noteq> [] \<and> (\<forall>c \<in> set t. is_ident_rune c)"

lemma good_operators: "good_token ''and''" "good_token ''or''" "good_token ''not''"
    "good_token ''(''" "good_token '')''"
  by (simp_all add: good_token_def is_ident_rune_def is_letter_rune_def is_lower_ascii_def
      in_byte_range_def byte_def)

lemma wf_name_good: "wf_name w \<Longrightarrow> good_token w"
  by (simp add: wf_name_def good_token_def)

lemma show_node_good: "wf_node n \<Longrightarrow> \<forall>t \<in> set (show_node k n). good_token t"
  by (induction k n rule: show_node.induct) (auto simp: wf_name_good paren_if_def good_operators)

lemma show_node_nonempty: "show_node k n \<noteq> []"
  by (cases n) (auto simp: paren_if_def)

text \<open>Tokens written with a space between them are lexed back.\<close>

lemma lex_joined: "\<forall>t \<in> set ts. good_token t \<Longrightarrow> lex_loop (str_join ts '' '') = Inr ts"
proof (induction ts)
  case (Cons t ts)
  let ?tail = "if ts = [] then [] else CHR '' '' # str_join ts '' ''"
  have join: "str_join (t # ts) '' '' = t @ ?tail" by (cases ts) simp_all
  have tail: "lex_loop ?tail = Inr ts" using Cons by (auto simp: rune_classes)
  have stop: "takeWhile is_ident_rune ?tail = []" "dropWhile is_ident_rune ?tail = ?tail"
    by (simp_all add: rune_classes)
  show ?case
  proof (cases "t = ''('' \<or> t = '')''")
    case True
    then obtain c where t: "t = [c]" "is_paren c" by (auto simp: is_paren_def)
    with tail show ?thesis unfolding join by (simp add: rune_classes del: lex_loop.simps(1))
  next
    case False
    with Cons.prems obtain c w where t: "t = c # w" and c: "is_ident_rune c"
      and w: "\<forall>d \<in> set w. is_ident_rune d"
      by (cases t) (auto simp: good_token_def)
    have "takeWhile is_ident_rune (w @ ?tail) = w" and "dropWhile is_ident_rune (w @ ?tail) = ?tail"
      using w stop by (simp_all only: takeWhile_append2 dropWhile_append2) simp_all
    with tail c show ?thesis unfolding join [unfolded t] t by (simp add: rune_classes)
  qed
qed simp

text \<open>No token holds a byte of a multi-byte white-space encoding.\<close>

definition plain_byte :: "char \<Rightarrow> bool" where
  "plain_byte c \<longleftrightarrow> byte c \<notin> {128, 129, 133, 154, 159, 160, 168, 169, 175} \<and> \<not> in_byte_range 128 138 c"

lemma ident_rune_bytes:
  assumes "is_ident_rune c"
  shows "plain_byte c \<and> \<not> is_ascii_space c"
  using assms
  unfolding is_ident_rune_def is_letter_rune_def is_lower_ascii_def is_upper_ascii_def is_digit_ascii_def
    in_byte_range_def plain_byte_def is_ascii_space_def byte_def
  by (elim disjE conjE; simp)

lemma good_token_bytes:
  assumes "good_token t" and "c \<in> set t"
  shows "plain_byte c \<and> \<not> is_ascii_space c"
proof (cases "is_ident_rune c")
  case False
  with assms have "c = CHR ''('' \<or> c = CHR '')''" by (auto simp: good_token_def)
  then show ?thesis
    unfolding plain_byte_def is_ascii_space_def in_byte_range_def byte_def by (elim disjE; simp)
qed (rule ident_rune_bytes)

lemma plain_no_outer_space:
  assumes "s \<noteq> []" and "\<forall>c \<in> set s. plain_byte c"
    and "\<not> is_ascii_space (hd s)" and "\<not> is_ascii_space (last s)"
  shows "no_outer_space s"
proof -
  have l: "space_width s = 0" if "s \<noteq> []" "\<forall>c \<in> set s. plain_byte c" "\<not> is_ascii_space (hd s)" for s
    using that by (cases s; cases "tl s"; cases "tl (tl s)")
      (auto simp: plain_byte_def is_space2_def is_space3_def)
  have r: "space_width_rev s = 0" if "s \<noteq> []" "\<forall>c \<in> set s. plain_byte c" "\<not> is_ascii_space (hd s)" for s
    using that by (cases s; cases "tl s"; cases "tl (tl s)")
      (auto simp: plain_byte_def is_space2_def is_space3_def)
  from l [OF assms(1-3)] r [of "rev s"] assms show ?thesis
    by (simp add: no_outer_space_def hd_rev)
qed

lemma joined_bytes: "c \<in> set (str_join ts '' '') \<Longrightarrow> c = CHR '' '' \<or> (\<exists>t \<in> set ts. c \<in> set t)"
  by (cases ts) (auto simp: str_join_def split: if_splits)

lemma good_token_nonempty: "good_token t \<Longrightarrow> t \<noteq> []"
  by (auto simp: good_token_def)

lemma last_str_join: "ts \<noteq> [] \<Longrightarrow> \<forall>t \<in> set ts. t \<noteq> [] \<Longrightarrow> last (str_join ts sep) = last (last ts)"
proof (induction ts)
  case (Cons t ts)
  then show ?case by (cases ts) (auto simp: str_join_def split: list.splits)
qed simp

lemma joined_no_outer_space:
  assumes "ts \<noteq> []" and "\<forall>t \<in> set ts. good_token t"
  shows "no_outer_space (str_join ts '' '')"
proof (rule plain_no_outer_space)
  have hd: "hd ts \<in> set ts" and la: "last ts \<in> set ts" using assms(1) by simp_all
  have ne: "hd ts \<noteq> []" "last ts \<noteq> []" using hd la assms(2) good_token_nonempty by blast+
  show "str_join ts '' '' \<noteq> []" using assms(1) ne by (cases ts) (auto simp: str_join_def)
  show "\<forall>c \<in> set (str_join ts '' ''). plain_byte c"
    using assms(2) good_token_bytes
    by (auto dest!: joined_bytes simp: plain_byte_def byte_def in_byte_range_def)
  have "hd (str_join ts '' '') = hd (hd ts)" using assms(1) ne by (cases ts) (auto simp: str_join_def)
  then show "\<not> is_ascii_space (hd (str_join ts '' ''))"
    using good_token_bytes [of "hd ts" "hd (hd ts)"] assms(2) hd ne by simp
  have "last (str_join ts '' '') = last (last ts)"
    using assms good_token_nonempty by (intro last_str_join) auto
  then show "\<not> is_ascii_space (last (str_join ts '' ''))"
    using good_token_bytes [of "last ts" "last (last ts)"] assms(2) la ne by simp
qed

definition show_expr :: "node \<Rightarrow> gostring" where
  "show_expr n = str_join (show_node 0 n) '' ''"

text \<open>
  C9. Printing a tree with the fewest parentheses and parsing the text gives the tree back.
\<close>

theorem ParseMarkerExpr_show:
  "wf_node n \<Longrightarrow> ParseMarkerExpr (show_expr n) = Inr (Some n)"
proof -
  assume wf: "wf_node n"
  let ?ts = "show_node 0 n"
  have ts: "?ts \<noteq> []" "\<forall>t \<in> set ?ts. good_token t"
    using wf show_node_nonempty show_node_good by auto
  have g: "g_or ?ts n" using show_node_grammar [OF wf] by blast
  have ne: "show_expr n \<noteq> []" unfolding show_expr_def using ts good_token_nonempty
    by (cases ?ts) (auto simp: str_join_def)
  have "trim_space (show_expr n) = show_expr n"
    unfolding show_expr_def by (rule trim_space_id [OF joined_no_outer_space [OF ts]])
  moreover have "lexMarkers (show_expr n) = Inr ?ts"
    using ts by (simp add: lexMarkers_def show_expr_def lex_joined)
  moreover have "parseOr (parse_fuel ?ts 0) ?ts 0 = Inr (n, length ?ts)"
    using g parser_iff_grammar by blast
  ultimately show ?thesis using ne by (simp add: ParseMarkerExpr_def)
qed

theorem ParseMarkerExpr_show_witness:
  "ParseMarkerExpr (show_expr (AndNode (IdentNode ''a'') (NotNode (OrNode (IdentNode ''b'') (IdentNode ''c'')))))
     = Inr (Some (AndNode (IdentNode ''a'') (NotNode (OrNode (IdentNode ''b'') (IdentNode ''c'')))))"
  by (rule ParseMarkerExpr_show)
    (simp add: wf_name_def is_ident_rune_def is_letter_rune_def is_lower_ascii_def in_byte_range_def byte_def)

end
