(* ===== verification/Registry.thy ===== *)
theory Registry
  imports Prelude
begin

text \<open>
  Tests and the registry (\<open>internal/harness/registry.go\<close>). The registry's \<open>map[string]Test\<close>
  is an association list without duplicate keys; the order in which Go ranges over a map is
  unspecified, so what is computed from a range is shown not to depend on the list's order.
\<close>

section \<open>Sorting what a map range yields\<close>

locale map_range =
  fixes entries :: "'s \<Rightarrow> 'a list"
    and key :: "'a \<Rightarrow> 'k::linorder"
    and invar :: "'s \<Rightarrow> bool"
  assumes distinct_keys: "invar s \<Longrightarrow> distinct (map key (entries s))"
begin

lemma any_order:
  "invar s \<Longrightarrow> mset xs = mset (entries s) \<Longrightarrow> sort_key key xs = sort_key key (entries s)"
  using distinct_keys by (metis sort_key_unique)

lemma strictly_sorted: "invar s \<Longrightarrow> sorted_wrt (<) (map key (sort_key key (entries s)))"
proof -
  assume "invar s"
  then have "distinct (map key (sort_key key (entries s)))"
    using distinct_keys by (metis mset_eq_imp_distinct_iff mset_map mset_sort)
  then show ?thesis by (simp add: strict_sorted_iff)
qed

lemma distinct_sorted: "invar s \<Longrightarrow> distinct (sort_key key (entries s))"
  using strictly_sorted by (metis distinct_map strict_sorted_iff)

end

section \<open>Tests\<close>

record 'f gotest =
  tName :: gostring
  tModule :: gostring
  tMarkers :: "gostring list"
  tFn :: "'f option"

definition ModuleS3 :: gostring where
  "ModuleS3 = ''s3tests/functional/test_s3.py''"

definition ModuleHeaders :: gostring where
  "ModuleHeaders = ''s3tests/functional/test_headers.py''"

definition NodeID :: "'f gotest \<Rightarrow> gostring" where
  "NodeID t = tModule t @ ''::test_'' @ tName t"

definition test_marker :: "'f gotest \<Rightarrow> gostring \<Rightarrow> bool" where
  "test_marker t name \<longleftrightarrow> List.member (tMarkers t) name"

section \<open>Registry\<close>

record 'f registry =
  byName :: "(gostring \<times> 'f gotest) list"

datatype registry_error =
    NoName gostring
  | NoBody gostring
  | UnknownModule gostring gostring
  | DuplicateTest gostring

definition reg_lookup :: "'f registry \<Rightarrow> gostring \<Rightarrow> 'f gotest option" where
  "reg_lookup r name = map_of (byName r) name"

fun add_tests :: "'f registry \<Rightarrow> 'f gotest list \<Rightarrow> (registry_error, 'f registry) res" where
  "add_tests r [] = Inr r"
| "add_tests r (t # ts) =
     (if tName t = '''' then Inl (NoName (tModule t))
      else if tFn t = None then Inl (NoBody (tName t))
      else if tModule t \<noteq> ModuleS3 \<and> tModule t \<noteq> ModuleHeaders
        then Inl (UnknownModule (tName t) (tModule t))
      else if reg_lookup r (tName t) \<noteq> None then Inl (DuplicateTest (tName t))
      else add_tests (r\<lparr>byName := byName r @ [(tName t, t)]\<rparr>) ts)"

definition NewRegistry :: "'f gotest list \<Rightarrow> (registry_error, 'f registry) res" where
  "NewRegistry tests = add_tests \<lparr>byName = []\<rparr> tests"

definition reg_len :: "'f registry \<Rightarrow> nat" where
  "reg_len r = length (byName r)"

definition reg_all :: "'f registry \<Rightarrow> 'f gotest list" where
  "reg_all r = sort_key tName (map snd (byName r))"

section \<open>Marker counts\<close>

record marker_count =
  mcName :: gostring
  mcCount :: nat

text \<open>\<open>counts[m]++\<close> on a \<open>map[string]int\<close>.\<close>

fun bump_count :: "(gostring \<times> nat) list \<Rightarrow> gostring \<Rightarrow> (gostring \<times> nat) list" where
  "bump_count [] m = [(m, 1)]"
| "bump_count ((k, n) # cs) m = (if k = m then (k, n + 1) # cs else (k, n) # bump_count cs m)"

fun count_all :: "(gostring \<times> nat) list \<Rightarrow> gostring list \<Rightarrow> (gostring \<times> nat) list" where
  "count_all cs [] = cs"
| "count_all cs (m # ms) = count_all (bump_count cs m) ms"

definition reg_markers :: "'f registry \<Rightarrow> marker_count list" where
  "reg_markers r = sort_key mcName
     (map (\<lambda>(k, n). \<lparr>mcName = k, mcCount = n\<rparr>)
       (count_all [] (concat (map tMarkers (map snd (byName r))))))"

section \<open>The registry's invariant\<close>

definition valid_test :: "'f gotest \<Rightarrow> bool" where
  "valid_test t \<longleftrightarrow> tName t \<noteq> '''' \<and> tFn t \<noteq> None \<and> (tModule t = ModuleS3 \<or> tModule t = ModuleHeaders)"

definition reg_invar :: "'f registry \<Rightarrow> bool" where
  "reg_invar r \<longleftrightarrow> distinct (map fst (byName r)) \<and>
     (\<forall>(n, t) \<in> set (byName r). n = tName t \<and> valid_test t)"

definition reg_tests :: "'f registry \<Rightarrow> 'f gotest list" where
  "reg_tests r = map snd (byName r)"

lemma reg_invar_empty [simp]: "reg_invar \<lparr>byName = []\<rparr>"
  by (simp add: reg_invar_def)

lemma reg_lookup_None: "reg_lookup r n = None \<longleftrightarrow> n \<notin> fst ` set (byName r)"
  by (simp add: reg_lookup_def map_of_eq_None_iff)

lemma reg_names: "reg_invar r \<Longrightarrow> map fst (byName r) = map tName (reg_tests r)"
  by (auto simp: reg_invar_def reg_tests_def)

lemma reg_invar_add:
  "reg_invar r \<Longrightarrow> valid_test t \<Longrightarrow> reg_lookup r (tName t) = None \<Longrightarrow>
     reg_invar (r\<lparr>byName := byName r @ [(tName t, t)]\<rparr>)"
  by (auto simp: reg_invar_def reg_lookup_None)

lemma add_tests_Inr:
  "reg_invar r \<Longrightarrow> add_tests r ts = Inr r' \<Longrightarrow>
     reg_invar r' \<and> reg_tests r' = reg_tests r @ ts"
proof (induction ts arbitrary: r)
  case (Cons t ts)
  let ?r = "r\<lparr>byName := byName r @ [(tName t, t)]\<rparr>"
  from Cons.prems have "valid_test t" "reg_lookup r (tName t) = None" and rec: "add_tests ?r ts = Inr r'"
    by (auto simp: valid_test_def split: if_splits)
  with Cons.prems(1) have "reg_invar ?r" by (simp add: reg_invar_add)
  from Cons.IH [OF this rec] show ?case by (simp add: reg_tests_def)
qed simp

lemma add_tests_Inr_iff:
  "reg_invar r \<Longrightarrow> (\<exists>r'. add_tests r ts = Inr r') \<longleftrightarrow>
     (\<forall>t \<in> set ts. valid_test t) \<and> distinct (map tName (reg_tests r @ ts))"
proof (induction ts arbitrary: r)
  case Nil
  then show ?case by (simp add: reg_invar_def reg_names [symmetric])
next
  case (Cons t ts)
  let ?r = "r\<lparr>byName := byName r @ [(tName t, t)]\<rparr>"
  have names: "fst ` set (byName r) = tName ` set (reg_tests r)"
    using reg_names [OF Cons.prems] by (metis list.set_map)
  show ?case
  proof (cases "valid_test t \<and> reg_lookup r (tName t) = None")
    case True
    then have "reg_invar ?r" using Cons.prems by (simp add: reg_invar_add)
    from Cons.IH [OF this] True names show ?thesis
      by (auto simp: valid_test_def reg_tests_def reg_lookup_None)
  next
    case False
    then have "\<nexists>r'. add_tests r (t # ts) = Inr r'" by (auto simp: valid_test_def)
    with False names show ?thesis by (auto simp: reg_lookup_None)
  qed
qed

lemma reg_lookup_Some:
  "reg_invar r \<Longrightarrow> reg_lookup r n = Some t \<longleftrightarrow> t \<in> set (reg_tests r) \<and> tName t = n"
  by (auto simp: reg_invar_def reg_lookup_def reg_tests_def) force+

section \<open>What the registry offers its clients\<close>

text \<open>\<open>Select\<close> and \<open>ParseKnownFailures\<close> rely on \<open>All\<close> and \<open>Lookup\<close> only.\<close>

locale test_source =
  fixes all :: "'r \<Rightarrow> 'f gotest list"
    and lookup :: "'r \<Rightarrow> gostring \<Rightarrow> 'f gotest option"
    and invar :: "'r \<Rightarrow> bool"
  assumes all_sorted: "invar r \<Longrightarrow> sorted_wrt (<) (map tName (all r))"
    and lookup_all: "invar r \<Longrightarrow> lookup r n = Some t \<longleftrightarrow> t \<in> set (all r) \<and> tName t = n"
    and all_valid: "invar r \<Longrightarrow> t \<in> set (all r) \<Longrightarrow> valid_test t"
begin

lemma lookup_own_name: "invar r \<Longrightarrow> t \<in> set (all r) \<Longrightarrow> lookup r (tName t) = Some t"
  by (simp add: lookup_all)

lemma lookup_None_iff: "invar r \<Longrightarrow> lookup r n = None \<longleftrightarrow> n \<notin> tName ` set (all r)"
  using lookup_all by (metis (no_types, opaque_lifting) image_iff not_Some_eq)

lemma names_distinct: "invar r \<Longrightarrow> distinct (map tName (all r))"
  using all_sorted by (simp add: strict_sorted_iff)

lemma name_inj: "invar r \<Longrightarrow> t \<in> set (all r) \<Longrightarrow> u \<in> set (all r) \<Longrightarrow> tName t = tName u \<Longrightarrow> t = u"
  using lookup_all by (metis option.inject)

lemma sorted_filter: "invar r \<Longrightarrow> sorted_wrt (<) (map tName (filter P (all r)))"
  using all_sorted by (simp add: sorted_wrt_map sorted_wrt_filter)

end

interpretation reg_range: map_range reg_tests tName reg_invar
proof unfold_locales
  fix r :: "'a registry"
  assume "reg_invar r"
  then show "distinct (map tName (reg_tests r))"
    using reg_names by (metis reg_invar_def)
qed

interpretation reg_source: test_source reg_all reg_lookup reg_invar
proof unfold_locales
  fix r :: "'a registry" and n :: gostring and t :: "'a gotest"
  assume inv: "reg_invar r"
  show "sorted_wrt (<) (map tName (reg_all r))"
    using reg_range.strictly_sorted [OF inv] by (simp add: reg_all_def reg_tests_def)
  show "reg_lookup r n = Some t \<longleftrightarrow> t \<in> set (reg_all r) \<and> tName t = n"
    using reg_lookup_Some [OF inv] by (simp add: reg_all_def reg_tests_def)
  show "valid_test t" if "t \<in> set (reg_all r)"
    using that inv by (auto simp: reg_all_def reg_invar_def)
qed

lemma NewRegistry_Inr:
  "NewRegistry ts = Inr r \<Longrightarrow> reg_invar r \<and> reg_tests r = ts"
  using add_tests_Inr [of "\<lparr>byName = []\<rparr>" ts r] by (simp add: NewRegistry_def reg_tests_def)

lemma reg_all_NewRegistry: "NewRegistry ts = Inr r \<Longrightarrow> reg_all r = sort_key tName ts"
  using NewRegistry_Inr by (fastforce simp: reg_all_def reg_tests_def)

text \<open>
  C10. Collecting tests succeeds exactly when every test has a name, a body and a known module and
  no two tests share a name.
\<close>

theorem NewRegistry_iff:
  "(\<exists>r. NewRegistry ts = Inr r) \<longleftrightarrow> list_all valid_test ts \<and> distinct (map tName ts)"
  using add_tests_Inr_iff [of "\<lparr>byName = []\<rparr>" ts]
  by (simp add: NewRegistry_def reg_tests_def list_all_iff)

text \<open>
  The order in which tests are registered, and the order in which Go ranges over the registry,
  do not show: any permutation of the tests builds a registry that lists the same tests, in the
  strict order of their names.
\<close>

theorem reg_all_order_independent:
  assumes "NewRegistry ts = Inr r" and "mset us = mset ts"
  shows "\<exists>r'. NewRegistry us = Inr r' \<and> reg_all r' = reg_all r \<and>
           mset (reg_all r) = mset ts \<and> sorted_wrt (<) (map tName (reg_all r))"
proof -
  have inv: "reg_invar r" and ts: "reg_tests r = ts" using NewRegistry_Inr [OF assms(1)] by auto
  have "list_all valid_test ts \<and> distinct (map tName ts)" using assms(1) NewRegistry_iff by blast
  then have "list_all valid_test us \<and> distinct (map tName us)"
    using assms(2) by (metis list_all_iff mset_eq_imp_distinct_iff mset_map set_mset_mset)
  then obtain r' where r': "NewRegistry us = Inr r'" using NewRegistry_iff by blast
  have "sort_key tName us = sort_key tName ts"
    using reg_range.any_order [OF inv, of us] assms(2) ts by simp
  with r' assms(1) show ?thesis
    using reg_source.all_sorted [OF inv] by (simp add: reg_all_NewRegistry)
qed

section \<open>Marker counts\<close>

lemma bump_count_keys: "distinct (map fst cs) \<Longrightarrow>
    distinct (map fst (bump_count cs m)) \<and> fst ` set (bump_count cs m) = insert m (fst ` set cs)"
  by (induction cs m rule: bump_count.induct) auto

lemma map_of_bump_count:
  "map_of (bump_count cs m) =
     (map_of cs)(m \<mapsto> (case map_of cs m of None \<Rightarrow> 1 | Some n \<Rightarrow> n + 1))"
  by (induction cs m rule: bump_count.induct) (auto simp: fun_eq_iff)

lemma count_all_distinct: "distinct (map fst cs) \<Longrightarrow> distinct (map fst (count_all cs ms))"
  by (induction cs ms rule: count_all.induct) (auto simp: bump_count_keys)

lemma map_of_count_all:
  "map_of (count_all cs ms) k = (case map_of cs k of
       None \<Rightarrow> if k \<in> set ms then Some (count_list ms k) else None
     | Some n \<Rightarrow> Some (n + count_list ms k))"
  by (induction cs ms rule: count_all.induct) (auto simp: map_of_bump_count split: option.splits)

definition count_entries :: "gostring list \<Rightarrow> marker_count list" where
  "count_entries ms = map (\<lambda>(k, n). \<lparr>mcName = k, mcCount = n\<rparr>) (count_all [] ms)"

interpretation count_range: map_range count_entries mcName "\<lambda>ms. True"
proof unfold_locales
  fix ms
  have "map mcName (count_entries ms) = map fst (count_all [] ms)"
    by (simp add: count_entries_def split_beta comp_def)
  then show "distinct (map mcName (count_entries ms))" by (simp add: count_all_distinct)
qed

lemma count_entries_iff:
  "c \<in> set (count_entries ms) \<longleftrightarrow> mcName c \<in> set ms \<and> mcCount c = count_list ms (mcName c)"
proof -
  have "(k, n) \<in> set (count_all [] ms) \<longleftrightarrow> k \<in> set ms \<and> n = count_list ms k" for k n
  proof -
    have "distinct (map fst (count_all [] ms))" by (simp add: count_all_distinct)
    then have "(k, n) \<in> set (count_all [] ms) \<longleftrightarrow> map_of (count_all [] ms) k = Some n"
      by (simp only: map_of_eq_Some_iff)
    then show ?thesis by (auto simp: map_of_count_all)
  qed
  moreover have "c \<in> set (count_entries ms) \<longleftrightarrow> (mcName c, mcCount c) \<in> set (count_all [] ms)"
    by (cases c) (force simp: count_entries_def)
  ultimately show ?thesis by simp
qed

text \<open>
  \<open>Markers\<close> lists each marker some test carries once, in strict name order, with the number
  of times the tests carry it.
\<close>

theorem reg_markers_correct:
  assumes "NewRegistry ts = Inr r"
  shows "sorted_wrt (<) (map mcName (reg_markers r)) \<and>
    set (reg_markers r) =
      (\<lambda>m. \<lparr>mcName = m, mcCount = count_list (concat (map tMarkers ts)) m\<rparr>) ` set (concat (map tMarkers ts))"
proof -
  have "reg_tests r = ts" using NewRegistry_Inr [OF assms] by simp
  then have eq: "reg_markers r = sort_key mcName (count_entries (concat (map tMarkers ts)))"
    unfolding reg_markers_def count_entries_def reg_tests_def by simp
  have "set (count_entries ms) = (\<lambda>m. \<lparr>mcName = m, mcCount = count_list ms m\<rparr>) ` set ms" for ms
    by (auto simp: count_entries_iff intro!: image_eqI)
  then show ?thesis using count_range.strictly_sorted [of "concat (map tMarkers ts)"] unfolding eq by simp
qed

section \<open>Examples\<close>

definition example_test :: "gostring \<Rightarrow> gostring list \<Rightarrow> nat gotest" where
  "example_test n ms = \<lparr>tName = n, tModule = ModuleS3, tMarkers = ms, tFn = Some 0\<rparr>"

lemma example_test_fields [simp]:
  "tName (example_test n ms) = n" "tMarkers (example_test n ms) = ms"
  "tModule (example_test n ms) = ModuleS3" "tFn (example_test n ms) = Some 0"
  by (simp_all add: example_test_def)

lemma example_registry:
  "NewRegistry [example_test ''b'' [''x''], example_test ''a'' [''x'', ''y'']] =
     Inr \<lparr>byName = [(''b'', example_test ''b'' [''x'']), (''a'', example_test ''a'' [''x'', ''y''])]\<rparr>"
  by (simp add: NewRegistry_def reg_lookup_def)

theorem reg_all_order_independent_witness:
  "\<exists>r'. NewRegistry [example_test ''a'' [''x'', ''y''], example_test ''b'' [''x'']] = Inr r' \<and>
     map tName (reg_all r') = [''a'', ''b'']"
proof -
  have "mset [example_test ''a'' [''x'', ''y''], example_test ''b'' [''x'']] =
      mset [example_test ''b'' [''x''], example_test ''a'' [''x'', ''y'']]"
    by (simp add: add_mset_commute)
  from reg_all_order_independent [OF example_registry this] show ?thesis
    by (auto simp: reg_all_def)
qed

theorem reg_markers_correct_witness:
  "\<lparr>mcName = ''x'', mcCount = 2\<rparr> \<in> set (reg_markers
     \<lparr>byName = [(''b'', example_test ''b'' [''x'']), (''a'', example_test ''a'' [''x'', ''y''])]\<rparr>)"
  using reg_markers_correct [OF example_registry] by simp

end
