(* ===== verification/Outcome.thy ===== *)
theory Outcome
  imports Registry
begin

text \<open>
  The status of a test and its result (\<open>Status\<close> of \<open>internal/harness/t.go\<close>, \<open>Result\<close> of
  \<open>run.go\<close>). Statuses are ordered as the summary prints them.
\<close>

datatype status =
    StatusPassed
  | StatusFailed
  | StatusSkipped
  | StatusTimeout
  | StatusExpectedFailure
  | StatusUnexpectedPass

fun status_string :: "status \<Rightarrow> gostring" where
  "status_string StatusPassed = ''passed''"
| "status_string StatusFailed = ''failed''"
| "status_string StatusSkipped = ''skipped''"
| "status_string StatusTimeout = ''timeout''"
| "status_string StatusExpectedFailure = ''xfail''"
| "status_string StatusUnexpectedPass = ''xpass''"

lemma status_string_inj: "status_string s = status_string t \<Longrightarrow> s = t"
  by (cases s; cases t) simp_all

fun status_rank :: "status \<Rightarrow> nat" where
  "status_rank StatusPassed = 0"
| "status_rank StatusFailed = 1"
| "status_rank StatusTimeout = 2"
| "status_rank StatusSkipped = 3"
| "status_rank StatusExpectedFailure = 4"
| "status_rank StatusUnexpectedPass = 5"

instantiation status :: linorder
begin

definition less_eq_status :: "status \<Rightarrow> status \<Rightarrow> bool" where
  "less_eq_status s t \<longleftrightarrow> status_rank s \<le> status_rank t"

definition less_status :: "status \<Rightarrow> status \<Rightarrow> bool" where
  "less_status s t \<longleftrightarrow> status_rank s < status_rank t"

instance
proof
  fix x y z :: status
  show "(x < y) = (x \<le> y \<and> \<not> y \<le> x)" by (auto simp: less_status_def less_eq_status_def)
  show "x \<le> x" by (simp add: less_eq_status_def)
  show "x \<le> y \<Longrightarrow> y \<le> z \<Longrightarrow> x \<le> z" by (simp add: less_eq_status_def)
  show "x \<le> y \<Longrightarrow> y \<le> x \<Longrightarrow> x = y" by (cases x; cases y) (simp_all add: less_eq_status_def)
  show "x \<le> y \<or> y \<le> x" by (auto simp: less_eq_status_def)
qed

end

text \<open>Durations are \<open>time.Duration\<close>: nanoseconds in an \<open>int64\<close>.\<close>

record 'f run_result =
  resTest :: "'f gotest"
  resStatus :: status
  resDuration :: int
  resOutput :: gostring
  resSkip :: gostring

text \<open>The runner gives one of four statuses; the other two only come from a known-failures list.\<close>

definition raw_status :: "status \<Rightarrow> bool" where
  "raw_status s \<longleftrightarrow> s = StatusPassed \<or> s = StatusFailed \<or> s = StatusSkipped \<or> s = StatusTimeout"

text \<open>The statuses that fail a run.\<close>

definition fails_run :: "status \<Rightarrow> bool" where
  "fails_run s \<longleftrightarrow> s = StatusFailed \<or> s = StatusTimeout \<or> s = StatusUnexpectedPass"

end
