(* ===== verification/TestHandle.thy ===== *)
theory TestHandle
  imports Outcome
begin

text \<open>
  The handle a test body reports through (\<open>T\<close> of \<open>internal/harness/t.go\<close>) and the programs
  that use it. A test program takes the state of its goroutine's surroundings (the handle, the
  clock, the world outside) and ends in one of five ways: it returns, unwinds with the sentinel
  of \<open>Fatalf\<close> or \<open>Skipf\<close>, unwinds with another panic, or never ends. The mutex of \<open>T\<close> makes each
  method one step. A cleanup is a closure; the type \<open>'c\<close> names the closures a program registers
  and an interpreter gives each its program.
\<close>

section \<open>State and programs\<close>

record 'c handle =
  hName :: gostring
  hLogs :: "gostring list"
  hFailed :: bool
  hSkipped :: bool
  hSkipMsg :: gostring
  hCleanups :: "'c list"

record ('c, 'w) tenv =
  teT :: "'c handle"
  teClock :: int
  teWorld :: 'w

datatype 'a exit =
    Returned 'a
  | FailNow
  | SkipNow
  | Panicked gostring
  | Hangs

type_synonym ('c, 'w, 'a) prog = "('c, 'w) tenv \<Rightarrow> 'a exit \<times> ('c, 'w) tenv"

definition p_return :: "'a \<Rightarrow> ('c, 'w, 'a) prog" where
  "p_return a = (\<lambda>s. (Returned a, s))"

definition p_bind :: "('c, 'w, 'a) prog \<Rightarrow> ('a \<Rightarrow> ('c, 'w, 'b) prog) \<Rightarrow> ('c, 'w, 'b) prog" where
  "p_bind m k = (\<lambda>s. case m s of
       (Returned a, s') \<Rightarrow> k a s'
     | (FailNow, s') \<Rightarrow> (FailNow, s')
     | (SkipNow, s') \<Rightarrow> (SkipNow, s')
     | (Panicked v, s') \<Rightarrow> (Panicked v, s')
     | (Hangs, s') \<Rightarrow> (Hangs, s'))"

definition p_then :: "('c, 'w, 'a) prog \<Rightarrow> ('c, 'w, 'b) prog \<Rightarrow> ('c, 'w, 'b) prog" where
  "p_then m k = p_bind m (\<lambda>_. k)"

lemma p_bind_return [simp]: "p_bind (p_return a) k = k a"
  by (simp add: p_bind_def p_return_def)

lemma p_return_bind [simp]: "p_bind m p_return = m"
  by (rule ext) (simp add: p_bind_def p_return_def split: prod.splits exit.splits)

lemma p_bind_assoc: "p_bind (p_bind m k) l = p_bind m (\<lambda>a. p_bind (k a) l)"
  by (rule ext) (simp add: p_bind_def split: prod.splits exit.splits)

definition update_handle :: "('c handle \<Rightarrow> 'c handle) \<Rightarrow> ('c, 'w) tenv \<Rightarrow> ('c, 'w) tenv" where
  "update_handle f s = s\<lparr>teT := f (teT s)\<rparr>"

lemma update_handle_sel [simp]:
  "teT (update_handle f s) = f (teT s)" "teClock (update_handle f s) = teClock s"
  "teWorld (update_handle f s) = teWorld s"
  by (simp_all add: update_handle_def)

section \<open>Methods of T\<close>

definition newT :: "gostring \<Rightarrow> 'c handle" where
  "newT name = \<lparr>hName = name, hLogs = [], hFailed = False, hSkipped = False, hSkipMsg = '''', hCleanups = []\<rparr>"

definition h_error :: "gostring \<Rightarrow> 'c handle \<Rightarrow> 'c handle" where
  "h_error msg t = t\<lparr>hFailed := True, hLogs := hLogs t @ [msg]\<rparr>"

definition t_Logf :: "gostring \<Rightarrow> ('c, 'w, unit) prog" where
  "t_Logf msg = (\<lambda>s. (Returned (), update_handle (\<lambda>t. t\<lparr>hLogs := hLogs t @ [msg]\<rparr>) s))"

definition t_Errorf :: "gostring \<Rightarrow> ('c, 'w, unit) prog" where
  "t_Errorf msg = (\<lambda>s. (Returned (), update_handle (h_error msg) s))"

definition t_Fatalf :: "gostring \<Rightarrow> ('c, 'w, 'a) prog" where
  "t_Fatalf msg = p_bind (t_Errorf msg) (\<lambda>_ s. (FailNow, s))"

definition t_Skipf :: "gostring \<Rightarrow> ('c, 'w, 'a) prog" where
  "t_Skipf msg = (\<lambda>s. (SkipNow, update_handle (\<lambda>t. t\<lparr>hSkipped := True, hSkipMsg := msg\<rparr>) s))"

definition t_Cleanup :: "'c \<Rightarrow> ('c, 'w, unit) prog" where
  "t_Cleanup fn = (\<lambda>s. (Returned (), update_handle (\<lambda>t. t\<lparr>hCleanups := hCleanups t @ [fn]\<rparr>) s))"

definition t_Name :: "('c, 'w, gostring) prog" where
  "t_Name = (\<lambda>s. (Returned (hName (teT s)), s))"

definition t_Failed :: "('c, 'w, bool) prog" where
  "t_Failed = (\<lambda>s. (Returned (hFailed (teT s)), s))"

definition h_output :: "'c handle \<Rightarrow> gostring" where
  "h_output t = str_join (hLogs t) [CHR 0x0A]"

definition panic_text :: "'a exit \<Rightarrow> gostring" where
  "panic_text x = (case x of FailNow \<Rightarrow> ''{}'' | SkipNow \<Rightarrow> ''{}'' | Panicked v \<Rightarrow> v | _ \<Rightarrow> '''')"

text \<open>
  \<open>runCleanups\<close>: the registered closures are taken over, then run from the last to the first; a
  panic is recorded and the next one runs. The list of \<open>cleanup_loop\<close> is the remaining closures,
  last registered first.
\<close>

definition run_cleanup :: "('c \<Rightarrow> ('c, 'w, unit) prog) \<Rightarrow> 'c \<Rightarrow> ('c, 'w, unit) prog" where
  "run_cleanup exec fn s = (case exec fn s of
       (Returned _, s') \<Rightarrow> (Returned (), s')
     | (Hangs, s') \<Rightarrow> (Hangs, s')
     | (x, s') \<Rightarrow> (Returned (), update_handle (h_error (''cleanup panicked: '' @ panic_text x)) s'))"

fun cleanup_loop :: "('c \<Rightarrow> ('c, 'w, unit) prog) \<Rightarrow> 'c list \<Rightarrow> ('c, 'w, unit) prog" where
  "cleanup_loop exec [] = p_return ()"
| "cleanup_loop exec (fn # fns) = p_then (run_cleanup exec fn) (cleanup_loop exec fns)"

definition t_runCleanups :: "('c \<Rightarrow> ('c, 'w, unit) prog) \<Rightarrow> ('c, 'w, unit) prog" where
  "t_runCleanups exec s =
     (let fns = hCleanups (teT s)
      in cleanup_loop exec (rev fns) (update_handle (\<lambda>t. t\<lparr>hCleanups := []\<rparr>) s))"

text \<open>
  \<open>invoke\<close> turns the end of a body into a status; \<open>None\<close> when it never ends. \<open>dump\<close> is the stack
  text appended to an unexpected panic.
\<close>

definition invoke :: "gostring \<Rightarrow> ('c, 'w, unit) prog \<Rightarrow> ('c, 'w) tenv \<Rightarrow> status option \<times> ('c, 'w) tenv" where
  "invoke dump fn s = (case fn s of
       (Returned _, s') \<Rightarrow> (Some (if hFailed (teT s') then StatusFailed else StatusPassed), s')
     | (FailNow, s') \<Rightarrow> (Some StatusFailed, s')
     | (SkipNow, s') \<Rightarrow> (Some StatusSkipped, s')
     | (Panicked v, s') \<Rightarrow>
         (Some StatusFailed, update_handle (h_error (''panic: '' @ v @ [CHR 0x0A] @ dump)) s')
     | (Hangs, s') \<Rightarrow> (None, s'))"

section \<open>Failure is sticky\<close>

text \<open>
  Operations of the handle share a contract: a failure recorded is never taken back and what was
  logged stays. Sequencing keeps it, so a body built from such operations has it.
\<close>

definition extends :: "('c, 'w) tenv \<Rightarrow> ('c, 'w) tenv \<Rightarrow> bool" where
  "extends s s' \<longleftrightarrow> (hFailed (teT s) \<longrightarrow> hFailed (teT s')) \<and>
     (\<exists>ls. hLogs (teT s') = hLogs (teT s) @ ls)"

lemma extends_refl [simp]: "extends s s"
  by (simp add: extends_def)

lemma extends_trans: "extends s t \<Longrightarrow> extends t u \<Longrightarrow> extends s u"
  by (auto simp: extends_def)

lemma extends_error: "extends s (update_handle (h_error m) s)"
  by (simp add: extends_def h_error_def)

definition sticky :: "('c, 'w, 'a) prog \<Rightarrow> bool" where
  "sticky m \<longleftrightarrow> (\<forall>s. extends s (snd (m s)))"

lemma stickyD: "sticky m \<Longrightarrow> m s = (x, s') \<Longrightarrow> extends s s'"
  by (metis sticky_def snd_conv)

lemma sticky_return [simp]: "sticky (p_return a)"
  by (simp add: sticky_def p_return_def)

lemma sticky_bind:
  assumes m: "sticky m" and k: "\<And>a. sticky (k a)"
  shows "sticky (p_bind m k)"
  unfolding sticky_def
proof
  fix s
  obtain x t where mt: "m s = (x, t)" by (cases "m s")
  have e: "extends s t" using stickyD [OF m mt] .
  show "extends s (snd (p_bind m k s))"
  proof (cases x)
    case (Returned a)
    have "extends t (snd (k a t))" using k by (simp add: sticky_def)
    then show ?thesis using extends_trans [OF e] by (simp add: p_bind_def mt Returned)
  qed (simp_all add: p_bind_def mt e)
qed

lemma sticky_then: "sticky m \<Longrightarrow> sticky k \<Longrightarrow> sticky (p_then m k)"
  by (simp add: p_then_def sticky_bind)

locale handle_op =
  fixes op :: "'i \<Rightarrow> ('c, 'w, 'a) prog"
  assumes keeps: "extends s (snd (op i s))"
begin

lemma sticky_op [intro]: "sticky (op i)"
  by (simp add: sticky_def keeps)

lemma sticky_op_then: "sticky k \<Longrightarrow> sticky (p_then (op i) k)"
  by (rule sticky_then [OF sticky_op])

lemma sticky_op_bind: "(\<And>a. sticky (k a)) \<Longrightarrow> sticky (p_bind (op i) k)"
  by (rule sticky_bind [OF sticky_op])

end

interpretation op_Errorf: handle_op t_Errorf
  by unfold_locales (simp add: t_Errorf_def extends_def h_error_def)

interpretation op_Logf: handle_op t_Logf
  by unfold_locales (simp add: t_Logf_def extends_def)

interpretation op_Fatalf: handle_op t_Fatalf
  by unfold_locales (simp add: t_Fatalf_def t_Errorf_def p_bind_def extends_def h_error_def)

interpretation op_Skipf: handle_op t_Skipf
  by unfold_locales (simp add: t_Skipf_def extends_def)

interpretation op_Cleanup: handle_op t_Cleanup
  by unfold_locales (simp add: t_Cleanup_def extends_def)

interpretation op_Failed: handle_op "\<lambda>_. t_Failed"
  by unfold_locales (simp add: t_Failed_def)

lemma sticky_run_cleanup:
  assumes "sticky (exec c)"
  shows "sticky (run_cleanup exec c)"
  unfolding sticky_def
proof
  fix s
  obtain x t where mt: "exec c s = (x, t)" by (cases "exec c s")
  have e: "extends s t" using stickyD [OF assms mt] .
  have e': "extends s (update_handle (h_error m) t)" for m
    by (rule extends_trans [OF e extends_error])
  show "extends s (snd (run_cleanup exec c s))"
    by (cases x) (simp_all add: run_cleanup_def mt e e')
qed

lemma sticky_cleanup_loop: "(\<And>c. sticky (exec c)) \<Longrightarrow> sticky (cleanup_loop exec fns)"
  by (induction fns) (simp_all add: sticky_then sticky_run_cleanup)

lemma sticky_runCleanups:
  assumes "\<And>c. sticky (exec c)"
  shows "sticky (t_runCleanups exec)"
proof -
  have "extends s (update_handle (\<lambda>t. t\<lparr>hCleanups := []\<rparr>) s)" for s :: "('a, 'b) tenv"
    by (simp add: extends_def)
  moreover have "extends s (snd (cleanup_loop exec fns s))" for s fns
    using sticky_cleanup_loop [of exec, OF assms] by (simp add: sticky_def)
  ultimately show ?thesis
    unfolding sticky_def t_runCleanups_def Let_def by (metis extends_trans)
qed

section \<open>Cleanups run in reverse order, each once\<close>

lemma run_cleanup_ends:
  "fst (run_cleanup exec fn s) = (if fst (exec fn s) = Hangs then Hangs else Returned ())"
  by (simp add: run_cleanup_def split: prod.splits exit.splits)

lemma cleanup_loop_foldl:
  "\<forall>c \<in> set fns. \<forall>s. fst (exec c s) \<noteq> Hangs \<Longrightarrow>
   cleanup_loop exec fns s = (Returned (), foldl (\<lambda>s c. snd (run_cleanup exec c s)) s fns)"
proof (induction fns arbitrary: s)
  case (Cons fn fns)
  have "run_cleanup exec fn s = (Returned (), snd (run_cleanup exec fn s))"
    using run_cleanup_ends [of exec fn s] Cons.prems by (simp add: prod_eq_iff)
  then obtain s' where "run_cleanup exec fn s = (Returned (), s')" by metis
  then show ?case using Cons by (simp add: p_then_def p_bind_def)
qed (simp add: p_return_def)


definition example_exec :: "nat \<Rightarrow> (nat, nat list, unit) prog" where
  "example_exec c s = (if c = 2 then (Panicked ''boom'', s\<lparr>teWorld := teWorld s @ [c]\<rparr>)
     else (Returned (), s\<lparr>teWorld := teWorld s @ [c]\<rparr>))"


end
