(* ===== verification/Decimal.thy ===== *)
theory Decimal
  imports Prelude
begin

text \<open>
  Numbers as text: the finite non-negative \<open>float64\<close>, the shortest decimal that reads back as one
  (\<open>strconv.FormatFloat\<close> with precision -1) in the two layouts the reports use, a reader of such
  texts, \<open>Duration.Seconds\<close> and \<open>Duration.String\<close>. Durations are nanoseconds.
\<close>

section \<open>Doubles\<close>

text \<open>A finite non-negative \<open>float64\<close> as a fraction \<open>m / 2^s\<close>; rounding is to nearest, ties to even.\<close>

type_synonym f64 = "nat \<times> nat"

definition div_half_even :: "nat \<Rightarrow> nat \<Rightarrow> nat" where
  "div_half_even a b =
     (let q = a div b; r = a mod b in if 2 * r < b \<or> 2 * r = b \<and> even q then q else q + 1)"

fun f64_shift :: "nat \<Rightarrow> nat \<Rightarrow> nat \<Rightarrow> nat" where
  "f64_shift 0 a b = 0"
| "f64_shift (Suc k) a b = (if 2 ^ 52 * b \<le> a then 0 else Suc (f64_shift k (2 * a) b))"

text \<open>A significand that is rounded up to the next power of two takes the exponent above.\<close>

definition f64_norm :: "f64 \<Rightarrow> f64" where
  "f64_norm x = (case x of (m, s) \<Rightarrow> if m = 2 ^ 53 \<and> 0 < s then (2 ^ 52, s - 1) else (m, s))"

text \<open>The double nearest to \<open>a / b\<close>, for fractions between 2^-1022 and 2^53.\<close>

definition f64_div :: "nat \<Rightarrow> nat \<Rightarrow> f64" where
  "f64_div a b = (if a = 0 then (0, 0)
     else let s = f64_shift 1074 a b in f64_norm (div_half_even (a * 2 ^ s) b, s))"

definition f64_less :: "f64 \<Rightarrow> f64 \<Rightarrow> bool" where
  "f64_less x y \<longleftrightarrow> (case (x, y) of ((m, s), (n, t)) \<Rightarrow> m * 2 ^ t < n * 2 ^ s)"

definition ns_second :: nat where "ns_second = 1000000000"

definition Seconds :: "int \<Rightarrow> f64" where
  "Seconds d = (let sec = nat d div ns_second; nsec = nat d mod ns_second; (m, s) = f64_div nsec ns_second
     in f64_div (sec * 2 ^ s + m) (2 ^ s))"

text \<open>\<open>%.1f\<close>.\<close>

definition fixed1 :: "f64 \<Rightarrow> gostring" where
  "fixed1 x = (case x of (m, s) \<Rightarrow> let t = div_half_even (10 * m) (2 ^ s) in
     nat_dec (t div 10) @ ''.'' @ nat_dec (t mod 10))"

section \<open>Decimals\<close>

text \<open>A decimal \<open>0.ds * 10^dp\<close>, as \<open>strconv\<close> keeps it, and the double it reads as.\<close>

type_synonym decimal = "gostring \<times> int"

definition dec_f64 :: "decimal \<Rightarrow> f64" where
  "dec_f64 x = (case x of (ds, dp) \<Rightarrow>
     f64_div (dec_value ds * 10 ^ nat dp) (10 ^ length ds * 10 ^ nat (- dp)))"

definition zero_digit :: char where "zero_digit = CHR ''0''"

definition trim_zeros :: "gostring \<Rightarrow> gostring" where
  "trim_zeros ds = rev (dropWhile (\<lambda>c. c = zero_digit) (rev ds))"

text \<open>The decimal exponent of \<open>m / 2^s\<close>: the value is below \<open>10^e\<close> and not below \<open>10^(e-1)\<close>.\<close>

fun lead_zeros :: "nat \<Rightarrow> nat \<Rightarrow> nat \<Rightarrow> nat" where
  "lead_zeros 0 m b = 0"
| "lead_zeros (Suc k) m b = (if b \<le> 10 * m then 0 else Suc (lead_zeros k (10 * m) b))"

definition dec_exponent :: "f64 \<Rightarrow> int" where
  "dec_exponent x = (case x of (m, s) \<Rightarrow>
     if 2 ^ s \<le> m then int (length (nat_dec (m div 2 ^ s))) else - int (lead_zeros s m (2 ^ s)))"

text \<open>The decimal with the digits of \<open>q\<close>, of which \<open>k\<close> are behind the point.\<close>

definition dec_of :: "nat \<Rightarrow> int \<Rightarrow> decimal" where
  "dec_of q k = (trim_zeros (nat_dec q), int (length (nat_dec q)) - k)"

text \<open>
  The shortest decimal that reads as \<open>x\<close>: digits are added until the \<open>n\<close>-digit decimal below the value
  or the one above reads back, and if both do the nearer one is taken.
\<close>

fun shortest_from :: "nat \<Rightarrow> nat \<Rightarrow> f64 \<Rightarrow> decimal" where
  "shortest_from 0 n x = ([], 0)"
| "shortest_from (Suc fuel) n x =
     (let (m, s) = x; k = int n - dec_exponent x;
          a = m * 10 ^ nat k; b = 2 ^ s * 10 ^ nat (- k); q = a div b;
          below = dec_f64 (dec_of q k) = x; above = dec_f64 (dec_of (q + 1) k) = x in
      if below \<and> above then dec_of (div_half_even a b) k
      else if below then dec_of q k
      else if above then dec_of (q + 1) k
      else shortest_from fuel (Suc n) x)"

definition shortest_fuel :: "f64 \<Rightarrow> nat" where
  "shortest_fuel x = snd x + 18"

definition shortest :: "f64 \<Rightarrow> decimal" where
  "shortest x = (if fst x = 0 then ([], 0) else shortest_from (shortest_fuel x) 1 x)"

text \<open>The layouts \<open>%f\<close> and \<open>%e\<close> of as many digits as there are.\<close>

definition zeros :: "nat \<Rightarrow> gostring" where
  "zeros n = replicate n zero_digit"

definition fmt_f :: "decimal \<Rightarrow> gostring" where
  "fmt_f x = (case x of (ds, dp) \<Rightarrow>
     (if dp > 0 then take (nat dp) ds @ zeros (nat dp - length ds) else [zero_digit]) @
     (if int (length ds) - dp > 0 \<and> ds \<noteq> [] then ''.'' @ zeros (nat (- dp)) @ drop (nat dp) ds else []))"

definition fmt_exp :: "int \<Rightarrow> gostring" where
  "fmt_exp e = (if e < 0 then ''-'' else ''+'') @
     (if \<bar>e\<bar> < 10 then [zero_digit] else []) @ nat_dec (nat \<bar>e\<bar>)"

definition fmt_e :: "decimal \<Rightarrow> gostring" where
  "fmt_e x = (case x of (ds, dp) \<Rightarrow>
     (if ds = [] then [zero_digit] else [hd ds]) @ (if length ds > 1 then ''.'' @ tl ds else []) @
     ''e'' @ fmt_exp (if ds = [] then 0 else dp - 1))"

text \<open>
  A number as \<open>encoding/json\<close> writes it: \<open>%e\<close> below 1e-6, without the zero that pads a negative exponent
  (no duration gets to 1e21); as \<open>encoding/xml\<close> does, with \<open>%g\<close>.
\<close>

definition json_e :: "decimal \<Rightarrow> gostring" where
  "json_e x = (let t = fmt_e x; n = length t in
     if 4 \<le> n \<and> t ! (n - 4) = CHR ''e'' \<and> t ! (n - 3) = CHR ''-'' \<and> t ! (n - 2) = zero_digit
     then take (n - 2) t @ [t ! (n - 1)] else t)"

definition json_number :: "f64 \<Rightarrow> gostring" where
  "json_number x = (if fst x \<noteq> 0 \<and> f64_less x (f64_div 1 1000000) then json_e (shortest x) else fmt_f (shortest x))"

definition xml_number :: "f64 \<Rightarrow> gostring" where
  "xml_number x = (let (ds, dp) = shortest x in
     if dp - 1 < -4 \<or> dp - 1 \<ge> 6 then fmt_e (ds, dp) else fmt_f (ds, dp))"

text \<open>A reader: digits, a fraction, an exponent.\<close>

definition read_exp :: "gostring \<Rightarrow> int" where
  "read_exp t = (case t of
       [] \<Rightarrow> 0
     | c # u \<Rightarrow> if c = CHR ''-'' then - int (dec_value u) else if c = CHR ''+'' then int (dec_value u)
         else int (dec_value t))"

definition read_number :: "gostring \<Rightarrow> f64" where
  "read_number t =
     (let whole = takeWhile is_digit_ascii t; t1 = dropWhile is_digit_ascii t;
          (frac, t2) = (if t1 \<noteq> [] \<and> hd t1 = CHR ''.''
            then (takeWhile is_digit_ascii (tl t1), dropWhile is_digit_ascii (tl t1)) else ([], t1));
          e = (if t2 \<noteq> [] \<and> hd t2 = CHR ''e'' then read_exp (tl t2) else 0)
      in dec_f64 (whole @ frac, int (length whole) + e))"

section \<open>Durations\<close>

text \<open>\<open>Duration.String\<close>: hours, minutes and seconds from a second on, one smaller unit below.\<close>

definition pad_zeros :: "nat \<Rightarrow> gostring \<Rightarrow> gostring" where
  "pad_zeros n ds = zeros (n - length ds) @ ds"

definition dur_frac :: "nat \<Rightarrow> nat \<Rightarrow> gostring" where
  "dur_frac v prec = (let ds = trim_zeros (if prec = 0 then [] else pad_zeros prec (nat_dec (v mod 10 ^ prec))) in
     if ds = [] then [] else ''.'' @ ds)"

definition micro_sign :: gostring where
  "micro_sign = [CHR 0xC2, CHR 0xB5]"

definition dur_abs :: "nat \<Rightarrow> gostring" where
  "dur_abs u =
     (if u = 0 then ''0s''
      else if u < 1000 then nat_dec u @ ''ns''
      else if u < 1000000 then nat_dec (u div 1000) @ dur_frac u 3 @ micro_sign @ ''s''
      else if u < ns_second then nat_dec (u div 1000000) @ dur_frac u 6 @ ''ms''
      else let secs = u div ns_second; mins = secs div 60; hours = mins div 60 in
        (if 0 < mins then (if 0 < hours then nat_dec hours @ ''h'' else []) @ nat_dec (mins mod 60) @ ''m'' else []) @
        nat_dec (secs mod 60) @ dur_frac u 9 @ ''s'')"

definition duration_string :: "int \<Rightarrow> gostring" where
  "duration_string d = (if d < 0 then ''-'' else []) @ dur_abs (nat \<bar>d\<bar>)"

section \<open>Rounding does not depend on the fraction\<close>

lemma div_half_even_scale: "0 < c \<Longrightarrow> div_half_even (c * a) (c * b) = div_half_even a b"
proof -
  assume c: "0 < c"
  have "2 * (c * (a mod b)) < c * b \<longleftrightarrow> 2 * (a mod b) < b" "2 * (c * (a mod b)) = c * b \<longleftrightarrow> 2 * (a mod b) = b"
    using c by (metis mult.left_commute nat_mult_less_cancel1, metis c mult.left_commute nat_mult_eq_cancel1)
  then show ?thesis using c by (simp add: div_half_even_def Let_def mult_mod_right [symmetric])
qed

lemma div_half_even_cases: "div_half_even a b = a div b \<or> div_half_even a b = a div b + 1"
  by (simp add: div_half_even_def Let_def)

lemma div_half_even_exact: "0 < b \<Longrightarrow> div_half_even (a * b) b = a"
  by (simp add: div_half_even_def Let_def)

lemma f64_shift_scale: "0 < c \<Longrightarrow> f64_shift k (c * a) (c * b) = f64_shift k a b"
proof (induction k arbitrary: a)
  case (Suc k)
  have "2 ^ 52 * (c * b) \<le> c * a \<longleftrightarrow> 2 ^ 52 * b \<le> a"
    using Suc.prems by (metis mult.left_commute nat_mult_le_cancel1)
  then show ?case using Suc.IH [of "2 * a"] Suc.prems by (simp add: mult.left_commute)
qed simp

lemma f64_div_scale: "0 < c \<Longrightarrow> f64_div (c * a) (c * b) = f64_div a b"
  by (simp add: f64_div_def f64_shift_scale div_half_even_scale mult.assoc)

lemma f64_div_eq:
  assumes "a * b' = a' * b" and "0 < b" and "0 < b'"
  shows "f64_div a b = f64_div a' b'"
proof -
  have "f64_div a b = f64_div (b' * a) (b' * b)" using f64_div_scale [OF assms(3)] by simp
  also have "\<dots> = f64_div (b * a') (b * b')" using assms(1) by (simp add: mult.commute)
  also have "\<dots> = f64_div a' b'" by (rule f64_div_scale [OF assms(2)])
  finally show ?thesis .
qed

section \<open>Normal doubles\<close>

definition normal :: "f64 \<Rightarrow> bool" where
  "normal x \<longleftrightarrow> x = (0, 0) \<or> 2 ^ 52 \<le> fst x \<and> fst x < 2 ^ 53 \<and> snd x \<le> 1074"

lemma f64_shift_spec:
  assumes "2 ^ 52 * b \<le> a * 2 ^ k"
  shows "f64_shift k a b \<le> k \<and> 2 ^ 52 * b \<le> a * 2 ^ f64_shift k a b \<and>
    (\<forall>j < f64_shift k a b. a * 2 ^ j < 2 ^ 52 * b)"
  using assms
proof (induction k arbitrary: a)
  case (Suc k)
  show ?case
  proof (cases "2 ^ 52 * b \<le> a")
    case False
    have "a * 2 ^ j < 2 ^ 52 * b" if "j < Suc (f64_shift k (2 * a) b)" for j
      using that False Suc.IH [of "2 * a"] Suc.prems by (cases j) (simp_all add: ac_simps)
    then show ?thesis using False Suc.IH [of "2 * a"] Suc.prems by (simp add: ac_simps)
  qed simp
qed simp

lemma f64_shift_unique:
  assumes "2 ^ 52 * b \<le> a * 2 ^ s" and "\<And>j. j < s \<Longrightarrow> a * 2 ^ j < 2 ^ 52 * b" and "s \<le> k"
  shows "f64_shift k a b = s"
proof -
  have "a * 2 ^ s \<le> a * 2 ^ k" using assms(3) by (intro mult_left_mono power_increasing) auto
  then have "f64_shift k a b \<le> k \<and> 2 ^ 52 * b \<le> a * 2 ^ f64_shift k a b \<and>
      (\<forall>j < f64_shift k a b. a * 2 ^ j < 2 ^ 52 * b)"
    using assms(1) by (intro f64_shift_spec) linarith
  then show ?thesis using assms(1,2) by (metis linorder_neqE_nat not_le)
qed

lemma f64_div_normal:
  assumes "normal (m, s)"
  shows "f64_div m (2 ^ s) = (m, s)"
proof (cases "m = 0")
  case False
  then have m: "2 ^ 52 \<le> m" "m < 2 ^ 53" "s \<le> 1074" using assms by (auto simp: normal_def)
  have "f64_shift 1074 m (2 ^ s) = s"
  proof (rule f64_shift_unique [OF _ _ m(3)])
    show "2 ^ 52 * 2 ^ s \<le> m * 2 ^ s" using m(1) by simp
    fix j assume "j < s"
    then have "(2 :: nat) ^ j * 2 \<le> 2 ^ s" using power_increasing [of "Suc j" s "2 :: nat"] by simp
    then have "2 ^ 53 * 2 ^ j \<le> 2 ^ 52 * (2 :: nat) ^ s" by simp
    moreover have "m * 2 ^ j < 2 ^ 53 * 2 ^ j" using m(2) by simp
    ultimately show "m * 2 ^ j < 2 ^ 52 * 2 ^ s" by linarith
  qed
  then show ?thesis using False m by (simp add: f64_div_def div_half_even_exact f64_norm_def)
qed (use assms in \<open>simp add: normal_def f64_div_def\<close>)

lemma normal_f64_div:
  assumes "a < 2 ^ 52 * b" and "0 < a \<Longrightarrow> 2 ^ 52 * b \<le> a * 2 ^ 1074"
  shows "normal (f64_div a b)"
proof (cases "a = 0")
  case False
  define s where "s = f64_shift 1074 a b"
  have s: "s \<le> 1074" "2 ^ 52 * b \<le> a * 2 ^ s" "\<forall>j < s. a * 2 ^ j < 2 ^ 52 * b"
    using f64_shift_spec [of b a 1074] assms(2) False by (auto simp: s_def)
  have "0 < s" using s(2) assms(1) by (cases s) auto
  then obtain j where j: "s = Suc j" by (cases s) auto
  have b: "0 < b" using assms(1) by (cases b) auto
  have up: "a * 2 ^ s < 2 ^ 53 * b" using s(3) j by (auto simp: ac_simps)
  have lo: "2 ^ 52 \<le> a * 2 ^ s div b" using s(2) b by (simp add: less_eq_div_iff_mult_less_eq)
  have hi: "a * 2 ^ s div b < 2 ^ 53" using up by (simp add: less_mult_imp_div_less)
  have r: "2 ^ 52 \<le> div_half_even (a * 2 ^ s) b" "div_half_even (a * 2 ^ s) b \<le> 2 ^ 53"
    using div_half_even_cases [of "a * 2 ^ s" b] lo hi by auto
  have "f64_div a b = f64_norm (div_half_even (a * 2 ^ s) b, s)" using False by (simp add: f64_div_def s_def Let_def)
  then show ?thesis using r s(1) \<open>0 < s\<close> by (auto simp: f64_norm_def normal_def)
qed (simp add: normal_def f64_div_def)

lemma nsec_shift:
  assumes "0 < n" and "n < ns_second"
  shows "3 \<le> f64_shift 1074 n ns_second \<and> f64_shift 1074 n ns_second \<le> 82"
proof -
  let ?s = "f64_shift 1074 n ns_second"
  have "2 ^ 52 * ns_second \<le> n * 2 ^ 1074" using assms(1) by (simp add: ns_second_def)
  then have s: "2 ^ 52 * ns_second \<le> n * 2 ^ ?s" "\<And>j. j < ?s \<Longrightarrow> n * 2 ^ j < 2 ^ 52 * ns_second"
    using f64_shift_spec [of ns_second n 1074] by auto
  have "\<not> ?s < 3"
  proof
    assume "?s < 3"
    then have "n * 2 ^ ?s \<le> n * 2 ^ 2" by (intro mult_left_mono power_increasing) auto
    with s(1) have "2 ^ 52 * ns_second \<le> n * 2 ^ 2" by (rule order_trans)
    with assms(2) show False by (simp add: ns_second_def)
  qed
  moreover have "\<not> 82 < ?s" using s(2) [of 82] assms(1) by (auto simp: ns_second_def)
  ultimately show ?thesis by linarith
qed

lemma normal_nsec:
  assumes "n < ns_second"
  shows "normal (f64_div n ns_second)" "snd (f64_div n ns_second) \<le> 82"
    "f64_div n ns_second = (0, 0) \<or> 2 \<le> snd (f64_div n ns_second)"
proof -
  show "normal (f64_div n ns_second)" using assms by (intro normal_f64_div) (simp_all add: ns_second_def)
  show "snd (f64_div n ns_second) \<le> 82"
    using nsec_shift [OF _ assms] by (auto simp: f64_div_def f64_norm_def Let_def)
  show "f64_div n ns_second = (0, 0) \<or> 2 \<le> snd (f64_div n ns_second)"
    using nsec_shift [OF _ assms] by (auto simp: f64_div_def f64_norm_def Let_def)
qed

lemma normal_Seconds:
  assumes "d < 2 ^ 63"
  shows "normal (Seconds d)"
proof -
  define sec nsec where "sec = nat d div ns_second" and "nsec = nat d mod ns_second"
  obtain m s where ms: "f64_div nsec ns_second = (m, s)" by (cases "f64_div nsec ns_second")
  have "nsec < ns_second" by (simp add: nsec_def ns_second_def)
  from normal_nsec [OF this] ms have n: "normal (m, s)" "s \<le> 82" "m = 0 \<and> s = 0 \<or> 2 \<le> s" by simp_all
  have "nat d < 2 ^ 63" using assms by (simp add: nat_less_iff)
  then have sec: "sec < 2 ^ 34" by (simp add: sec_def ns_second_def less_mult_imp_div_less)
  have "sec * 2 ^ s + m < 2 ^ 52 * 2 ^ s"
    using n(3)
  proof
    assume "2 \<le> s"
    have "(2::nat) ^ 2 \<le> 2 ^ s" using \<open>2 \<le> s\<close> by (intro power_increasing) auto
    then have "2 ^ 53 \<le> 2 ^ 51 * (2 :: nat) ^ s" by simp
    moreover have "m < 2 ^ 53" using n(1) by (auto simp: normal_def)
    moreover have "sec * 2 ^ s \<le> 2 ^ 34 * 2 ^ s" using sec by simp
    moreover have "2 ^ 34 * u + 2 ^ 51 * u < 2 ^ 52 * u" if "0 < u" for u :: nat using that by simp
    then have "2 ^ 34 * 2 ^ s + 2 ^ 51 * 2 ^ s < 2 ^ 52 * (2 :: nat) ^ s" by simp
    ultimately show ?thesis by (meson add_mono_thms_linordered_field(1) add_le_mono le_less_trans less_le_trans order_less_imp_le)
  qed (use sec in simp)
  moreover have "2 ^ 52 * 2 ^ s \<le> (sec * 2 ^ s + m) * 2 ^ 1074" if pos: "0 < sec * 2 ^ s + m"
  proof -
    have "2 ^ s \<le> sec * 2 ^ s + m \<or> 2 ^ 52 \<le> sec * 2 ^ s + m"
      using pos n(1) by (cases sec) (auto simp: normal_def)
    then show ?thesis
    proof
      assume "2 ^ s \<le> sec * 2 ^ s + m"
      then have "2 ^ s * 2 ^ 52 \<le> (sec * 2 ^ s + m) * 2 ^ 1074" by (intro mult_mono power_increasing) auto
      then show ?thesis by (simp only: mult.commute)
    next
      assume "2 ^ 52 \<le> sec * 2 ^ s + m"
      then show ?thesis using n(2) by (intro mult_mono power_increasing) auto
    qed
  qed
  ultimately show ?thesis
    using normal_f64_div [of "sec * 2 ^ s + m" "2 ^ s"] ms by (simp add: Seconds_def Let_def sec_def nsec_def)
qed

section \<open>Decimals that read back\<close>

lemma dec_value_append: "dec_value (xs @ ys) = dec_value xs * 10 ^ length ys + dec_value ys"
  by (induction ys rule: rev_induct) (simp_all flip: append_assoc add: dec_value_def algebra_simps)

lemma dec_value_zeros [simp]: "dec_value (zeros n) = 0"
proof -
  have "foldl (\<lambda>n c. 10 * n + (byte c - 48)) 0 (replicate n zero_digit) = 0"
    by (induction n) (simp_all add: zero_digit_def byte_def)
  then show ?thesis by (simp add: dec_value_def zeros_def)
qed

lemma length_zeros [simp]: "length (zeros n) = n"
  by (simp add: zeros_def)

lemma trim_zeros_split: "\<exists>n. ds = trim_zeros ds @ zeros n"
proof (rule exI)
  have "rev ds = takeWhile (\<lambda>c. c = zero_digit) (rev ds) @ rev (trim_zeros ds)"
    by (simp add: trim_zeros_def)
  moreover have "takeWhile (\<lambda>c. c = zero_digit) (rev ds) = replicate (length (takeWhile (\<lambda>c. c = zero_digit) (rev ds))) zero_digit"
    by (rule replicate_eqI [symmetric, THEN sym]) (auto dest: set_takeWhileD)
  ultimately show "ds = trim_zeros ds @ zeros (length (takeWhile (\<lambda>c. c = zero_digit) (rev ds)))"
    unfolding zeros_def by (metis rev_append rev_replicate rev_rev_ident)
qed

lemma set_trim_zeros: "set (trim_zeros ds) \<subseteq> set ds"
  by (auto simp: trim_zeros_def dest: set_dropWhileD)

text \<open>Zeros at either end of the digits do not change the value.\<close>

lemma dec_f64_frac: "dec_f64 (ds, dp) = f64_div (dec_value ds * 10 ^ nat dp) (10 ^ (length ds + nat (- dp)))"
  by (simp add: dec_f64_def power_add)

lemma dec_f64_eqI:
  assumes "dec_value ds * 10 ^ (nat dp + length es + nat (- ep)) =
      dec_value es * 10 ^ (nat ep + length ds + nat (- dp))"
  shows "dec_f64 (ds, dp) = dec_f64 (es, ep)"
  unfolding dec_f64_frac
  by (rule f64_div_eq) (use assms in \<open>simp_all add: power_add mult.assoc\<close>)

lemma dec_f64_append_zeros: "dec_f64 (ds @ zeros n, dp) = dec_f64 (ds, dp)"
  by (rule dec_f64_eqI) (simp add: dec_value_append power_add)

lemma dec_f64_trim: "dec_f64 (trim_zeros ds, dp) = dec_f64 (ds, dp)"
  using trim_zeros_split [of ds] dec_f64_append_zeros by metis

lemma dec_f64_zeros_append: "dec_f64 (zeros n @ ds, dp + int n) = dec_f64 (ds, dp)"
proof (rule dec_f64_eqI)
  have "nat (dp + int n) + nat (- dp) = n + (nat dp + nat (- (dp + int n)))" by linarith
  then show "dec_value (zeros n @ ds) * 10 ^ (nat (dp + int n) + length ds + nat (- dp)) =
      dec_value ds * 10 ^ (nat dp + length (zeros n @ ds) + nat (- (dp + int n)))"
    by (simp add: dec_value_append ac_simps)
qed

lemma dec_f64_of: "dec_f64 (dec_of q k) = f64_div (q * 10 ^ nat (- k)) (10 ^ nat k)"
proof -
  let ?L = "length (nat_dec q)"
  have e: "nat (int ?L - k) + nat k = ?L + nat (k - int ?L) + nat (- k)" by linarith
  have "dec_f64 (dec_of q k) = dec_f64 (nat_dec q, int ?L - k)" by (simp add: dec_of_def dec_f64_trim)
  also have "\<dots> = f64_div (q * 10 ^ nat (- k)) (10 ^ nat k)"
    unfolding dec_f64_frac
  proof (rule f64_div_eq)
    have "dec_value (nat_dec q) * 10 ^ nat (int ?L - k) * 10 ^ nat k = q * 10 ^ (nat (int ?L - k) + nat k)"
      by (simp add: power_add)
    also have "\<dots> = q * 10 ^ nat (- k) * 10 ^ (?L + nat (- (int ?L - k)))"
      unfolding e by (simp add: power_add)
    finally show "dec_value (nat_dec q) * 10 ^ nat (int ?L - k) * 10 ^ nat k =
        q * 10 ^ nat (- k) * 10 ^ (?L + nat (- (int ?L - k)))" .
  qed simp_all
  finally show ?thesis .
qed

text \<open>With as many digits behind the point as the exponent is deep, the decimal is exact.\<close>

lemma exact_decimal:
  assumes "normal (m, s)" and "int s \<le> k"
  shows "dec_f64 (dec_of (m * 10 ^ nat k div (2 ^ s * 10 ^ nat (- k))) k) = (m, s)"
proof -
  have k: "nat (- k) = 0" "s \<le> nat k" using assms(2) by auto
  have "(2 :: nat) ^ s dvd 2 ^ nat k" by (rule le_imp_power_dvd [OF k(2)])
  also have "(2 :: nat) ^ nat k dvd 10 ^ nat k" by (rule dvd_power_same) simp
  finally have "(2 :: nat) ^ s dvd 10 ^ nat k" .
  then have "2 ^ s dvd m * 10 ^ nat k" by simp
  then have "m * 10 ^ nat k div 2 ^ s * 2 ^ s = m * 10 ^ nat k" by simp
  then have "f64_div (m * 10 ^ nat k div 2 ^ s) (10 ^ nat k) = f64_div m (2 ^ s)"
    by (intro f64_div_eq) simp_all
  then show ?thesis by (simp add: dec_f64_of k f64_div_normal [OF assms(1)])
qed

lemma shortest_from_reads:
  assumes "normal (m, s)" and "\<exists>i < fuel. int s \<le> int (n + i) - dec_exponent (m, s)"
  shows "dec_f64 (shortest_from fuel n (m, s)) = (m, s)"
  using assms(2)
proof (induction fuel arbitrary: n)
  case (Suc fuel)
  define k where "k = int n - dec_exponent (m, s)"
  define a b where "a = m * 10 ^ nat k" and "b = (2 :: nat) ^ s * 10 ^ nat (- k)"
  let ?below = "dec_f64 (dec_of (a div b) k) = (m, s)" and ?above = "dec_f64 (dec_of (a div b + 1) k) = (m, s)"
  have step: "shortest_from (Suc fuel) n (m, s) =
     (if ?below \<and> ?above then dec_of (div_half_even a b) k
      else if ?below then dec_of (a div b) k
      else if ?above then dec_of (a div b + 1) k
      else shortest_from fuel (Suc n) (m, s))"
    by (simp add: Let_def k_def a_def b_def)
  show ?case
  proof (cases "?below \<or> ?above")
    case True
    then show ?thesis unfolding step using div_half_even_cases [of a b] by auto
  next
    case False
    then have "\<not> int s \<le> k" using exact_decimal [OF assms(1), of k] by (auto simp: a_def b_def)
    obtain i where i: "i < Suc fuel" "int s \<le> int (n + i) - dec_exponent (m, s)" using Suc.prems by blast
    with \<open>\<not> int s \<le> k\<close> have "i \<noteq> 0" by (auto simp: k_def)
    then have "i - 1 < fuel" "int s \<le> int (Suc n + (i - 1)) - dec_exponent (m, s)" using i by auto
    then have "dec_f64 (shortest_from fuel (Suc n) (m, s)) = (m, s)" using Suc.IH by blast
    then show ?thesis unfolding step using False by simp
  qed
qed simp

lemma dec_exponent_le:
  assumes "m < 2 ^ 53"
  shows "dec_exponent (m, s) \<le> 17"
proof -
  have "m div 2 ^ s \<le> m" by simp
  also have "m < 10 ^ 17" using assms by simp
  finally have "m div 2 ^ s < 10 ^ 17" .
  then show ?thesis using length_nat_dec [of "m div 2 ^ s" 17] by (simp add: dec_exponent_def)
qed

lemma shortest_reads:
  assumes "normal x"
  shows "dec_f64 (shortest x) = x"
proof -
  obtain m s where x: "x = (m, s)" by (cases x)
  show ?thesis
  proof (cases "m = 0")
    case True
    then show ?thesis using assms x by (simp add: shortest_def normal_def dec_f64_def f64_div_def dec_value_def)
  next
    case False
    then have "m < 2 ^ 53" using assms x by (auto simp: normal_def)
    then have "dec_exponent x \<le> 17" using dec_exponent_le x by simp
    then have "int s \<le> int (1 + (s + 17)) - dec_exponent x" by simp
    then have "\<exists>i < shortest_fuel x. int s \<le> int (1 + i) - dec_exponent x"
      unfolding shortest_fuel_def x by (intro exI [of _ "s + 17"]) simp
    then show ?thesis using shortest_from_reads assms False x unfolding shortest_def by simp
  qed
qed

section \<open>Texts that read back\<close>

definition digits :: "gostring \<Rightarrow> bool" where
  "digits s \<longleftrightarrow> (\<forall>c \<in> set s. is_digit_ascii c)"

lemma digits_simps [simp]:
  "digits []" "digits (c # s) \<longleftrightarrow> is_digit_ascii c \<and> digits s" "digits (s @ t) \<longleftrightarrow> digits s \<and> digits t"
  "digits (nat_dec n)" "digits (zeros k)" "is_digit_ascii zero_digit"
  using nat_dec_digits by (auto simp: digits_def zeros_def zero_digit_def is_digit_ascii_def in_byte_range_def byte_def)

lemma digits_takes: "digits s \<Longrightarrow> digits (take n s)" "digits s \<Longrightarrow> digits (drop n s)" "digits s \<Longrightarrow> digits (tl s)"
  "digits s \<Longrightarrow> s \<noteq> [] \<Longrightarrow> is_digit_ascii (hd s)" "digits s \<Longrightarrow> digits (trim_zeros s)"
  using set_trim_zeros [of s]
  by (auto simp: digits_def dest: in_set_takeD in_set_dropD hd_in_set intro: list.set_sel(2) [of s])
    (cases s; simp)

lemma digits_span:
  assumes "digits s" and "t = [] \<or> \<not> is_digit_ascii (hd t)"
  shows "takeWhile is_digit_ascii (s @ t) = s" "dropWhile is_digit_ascii (s @ t) = t"
  using assms by (cases t; simp add: digits_def takeWhile_append2 dropWhile_append2)+

lemma shortest_digits: "digits (fst (shortest x))"
proof -
  have "digits (fst (shortest_from fuel n x))" for fuel n
    by (induction fuel n x rule: shortest_from.induct)
      (auto simp: dec_of_def Let_def digits_takes split: prod.splits)
  then show ?thesis by (simp add: shortest_def)
qed

lemma shortest_nonempty:
  assumes "normal x" and "fst x \<noteq> 0"
  shows "fst (shortest x) \<noteq> []"
proof
  assume "fst (shortest x) = []"
  then obtain dp where "shortest x = ([], dp)" by (cases "shortest x") simp
  then have "x = (0, 0)" using shortest_reads [OF assms(1)] by (simp add: dec_f64_def f64_div_def dec_value_def)
  with assms(2) show False by simp
qed

lemma shortest_zero: "fst x = 0 \<Longrightarrow> shortest x = ([], 0)"
  by (simp add: shortest_def)

text \<open>How a text is taken apart.\<close>

definition exp_tail :: "gostring \<Rightarrow> bool" where
  "exp_tail t \<longleftrightarrow> t = [] \<or> hd t = CHR ''e''"

definition tail_exp :: "gostring \<Rightarrow> int" where
  "tail_exp t = (if t = [] then 0 else read_exp (tl t))"

lemma not_digit: "\<not> is_digit_ascii CHR ''e''" "\<not> is_digit_ascii CHR ''.''"
  by (simp_all add: is_digit_ascii_def in_byte_range_def byte_def)

lemma read_number_whole:
  assumes "digits ds" and "exp_tail t"
  shows "read_number (ds @ t) = dec_f64 (ds, int (length ds) + tail_exp t)"
proof -
  have "t = [] \<or> \<not> is_digit_ascii (hd t)" using assms(2) not_digit by (auto simp: exp_tail_def)
  from digits_span [OF assms(1) this] show ?thesis
    using assms(2) by (auto simp: read_number_def Let_def exp_tail_def tail_exp_def)
qed

lemma read_number_frac:
  assumes "digits ds" and "digits fs" and "exp_tail t"
  shows "read_number (ds @ CHR ''.'' # fs @ t) = dec_f64 (ds @ fs, int (length ds) + tail_exp t)"
proof -
  have t: "t = [] \<or> \<not> is_digit_ascii (hd t)" using assms(3) not_digit by (auto simp: exp_tail_def)
  show ?thesis
    using digits_span [OF assms(1), of "CHR ''.'' # fs @ t"] digits_span [OF assms(2) t] assms(3) not_digit
    by (auto simp: read_number_def Let_def exp_tail_def tail_exp_def)
qed

lemma read_fmt_f:
  assumes "digits ds" and "ds = [] \<Longrightarrow> dp = 0"
  shows "read_number (fmt_f (ds, dp)) = dec_f64 (ds, dp)"
proof -
  consider (none) "ds = []" | (whole) "ds \<noteq> []" "int (length ds) \<le> dp" | (both) "ds \<noteq> []" "0 < dp" "dp < int (length ds)"
    | (frac) "ds \<noteq> []" "dp \<le> 0" by linarith
  then show ?thesis
  proof cases
    case none
    then show ?thesis using read_number_whole [of "[zero_digit]" "[]"] dec_f64_zeros_append [of 1 "[]" 0] assms(2)
      by (simp add: fmt_f_def exp_tail_def tail_exp_def zeros_def)
  next
    case whole
    moreover from this have "0 < dp" by (cases ds) auto
    ultimately have "fmt_f (ds, dp) = ds @ zeros (nat dp - length ds)" by (simp add: fmt_f_def)
    moreover have "int (length (ds @ zeros (nat dp - length ds))) = dp" using whole by simp
    ultimately show ?thesis
      using read_number_whole [of "ds @ zeros (nat dp - length ds)" "[]"] assms(1)
      by (simp add: exp_tail_def tail_exp_def dec_f64_append_zeros)
  next
    case both
    then have "fmt_f (ds, dp) = take (nat dp) ds @ CHR ''.'' # drop (nat dp) ds" by (simp add: fmt_f_def zeros_def)
    moreover have "int (length (take (nat dp) ds)) = dp" using both by simp
    ultimately show ?thesis
      using read_number_frac [of "take (nat dp) ds" "drop (nat dp) ds" "[]"] assms(1)
      by (simp add: exp_tail_def tail_exp_def digits_takes)
  next
    case frac
    moreover from this have "dp < int (length ds)" by (cases ds) auto
    ultimately have "fmt_f (ds, dp) = [zero_digit] @ CHR ''.'' # (zeros (nat (- dp)) @ ds)" by (simp add: fmt_f_def)
    moreover have "dec_f64 (zero_digit # zeros (nat (- dp)) @ ds, 1) = dec_f64 (ds, dp)"
    proof -
      have "dp + int (Suc (nat (- dp))) = 1" using frac by simp
      moreover have "zeros (Suc (nat (- dp))) = zero_digit # zeros (nat (- dp))" by (simp add: zeros_def)
      ultimately show ?thesis using dec_f64_zeros_append [of "Suc (nat (- dp))" ds dp] by (simp del: of_nat_Suc)
    qed
    ultimately show ?thesis
      using read_number_frac [of "[zero_digit]" "zeros (nat (- dp)) @ ds" "[]"] assms(1)
      by (simp add: exp_tail_def tail_exp_def)
  qed
qed

definition mantissa :: "gostring \<Rightarrow> gostring" where
  "mantissa ds = hd ds # (if length ds > 1 then ''.'' @ tl ds else [])"

lemma read_mantissa:
  assumes "digits ds" and "ds \<noteq> []" and "exp_tail t"
  shows "read_number (mantissa ds @ t) = dec_f64 (ds, 1 + tail_exp t)"
proof (cases "length ds > 1")
  case True
  then show ?thesis using read_number_frac [of "[hd ds]" "tl ds" t] assms
    by (simp add: mantissa_def digits_takes)
next
  case False
  then obtain d where "ds = [d]" using assms(2) by (cases ds) auto
  then show ?thesis using read_number_whole [of "[d]" t] assms by (simp add: mantissa_def)
qed

lemma fmt_e_eq: "ds \<noteq> [] \<Longrightarrow> fmt_e (ds, dp) = mantissa ds @ CHR ''e'' # fmt_exp (dp - 1)"
  by (simp add: fmt_e_def mantissa_def)

lemma dec_value_zero_Cons: "dec_value (zero_digit # ds) = dec_value ds"
  using dec_value_append [of "zeros 1" ds] dec_value_zeros [of 1] by (simp add: zeros_def)

lemma read_exp_fmt [simp]: "read_exp (fmt_exp e) = e"
  by (auto simp: read_exp_def fmt_exp_def dec_value_zero_Cons)

lemma read_fmt_e: "digits ds \<Longrightarrow> ds \<noteq> [] \<Longrightarrow> read_number (fmt_e (ds, dp)) = dec_f64 (ds, dp)"
  by (simp add: fmt_e_eq read_mantissa exp_tail_def tail_exp_def)

lemma no_e_in_digits: "digits s \<Longrightarrow> CHR ''e'' \<notin> set s"
  using not_digit by (auto simp: digits_def)

lemma mantissa_no_e: "digits ds \<Longrightarrow> ds \<noteq> [] \<Longrightarrow> CHR ''e'' \<notin> set (mantissa ds)"
  using no_e_in_digits [of ds] no_e_in_digits [OF digits_takes(3), of ds] hd_in_set [of ds]
  by (auto simp: mantissa_def)

text \<open>Dropping the zero that pads an exponent of one digit.\<close>

lemma json_e_cases:
  assumes "digits ds" and "ds \<noteq> []"
  shows "json_e (ds, dp) = fmt_e (ds, dp) \<or>
    (\<exists>c. fmt_exp (dp - 1) = [CHR ''-'', zero_digit, c] \<and> json_e (ds, dp) = mantissa ds @ [CHR ''e'', CHR ''-'', c])"
proof -
  define M x t where "M = mantissa ds" and "x = fmt_exp (dp - 1)" and "t = M @ CHR ''e'' # x"
  have t: "fmt_e (ds, dp) = t" by (simp add: fmt_e_eq [OF assms(2)] M_def x_def t_def)
  show ?thesis
  proof (cases "4 \<le> length t \<and> t ! (length t - 4) = CHR ''e'' \<and> t ! (length t - 3) = CHR ''-'' \<and>
      t ! (length t - 2) = zero_digit")
    case True
    have "length t - 4 = length M"
    proof -
      have "\<not> length t - 4 < length M"
      proof
        assume "length t - 4 < length M"
        then have "t ! (length t - 4) \<in> set M" unfolding t_def nth_append by simp
        then show False using True mantissa_no_e [OF assms] by (simp add: M_def)
      qed
      moreover have "\<not> length M < length t - 4"
      proof
        assume "length M < length t - 4"
        then have "t ! (length t - 4) = x ! (length t - 4 - Suc (length M))"
            "length t - 4 - Suc (length M) < length x"
          by (auto simp: t_def nth_append nth_Cons')
        then have "CHR ''e'' \<in> set x" using True by (metis nth_mem)
        then show False using no_e_in_digits [of "nat_dec n" for n]
          by (auto simp: x_def fmt_exp_def zero_digit_def split: if_splits)
      qed
      ultimately show ?thesis by linarith
    qed
    moreover have "4 \<le> length t" using True by blast
    moreover have "length t = length M + length x + 1" by (simp add: t_def)
    ultimately have "length x = 3" by arith
    then obtain a b c where x: "x = [a, b, c]" by (auto simp: numeral_3_eq_3 length_Suc_conv)
    then have "a = CHR ''-''" "b = zero_digit" using True by (simp_all add: t_def nth_append)
    moreover have "json_e (ds, dp) = take (length t - 2) t @ [t ! (length t - 1)]"
      using True t by (simp add: json_e_def Let_def)
    ultimately show ?thesis using x by (simp add: t_def M_def x_def nth_append)
  next
    case False
    then show ?thesis using t by (auto simp: json_e_def Let_def)
  qed
qed

lemma read_json_e:
  assumes "digits ds" and "ds \<noteq> []"
  shows "read_number (json_e (ds, dp)) = dec_f64 (ds, dp)"
  using json_e_cases [OF assms, of dp]
proof
  assume "\<exists>c. fmt_exp (dp - 1) = [CHR ''-'', zero_digit, c] \<and>
      json_e (ds, dp) = mantissa ds @ [CHR ''e'', CHR ''-'', c]"
  then obtain c where c: "fmt_exp (dp - 1) = [CHR ''-'', zero_digit, c]"
      "json_e (ds, dp) = mantissa ds @ [CHR ''e'', CHR ''-'', c]" by blast
  have "read_exp [CHR ''-'', c] = read_exp [CHR ''-'', zero_digit, c]"
    by (simp add: read_exp_def dec_value_zero_Cons)
  then have "read_exp [CHR ''-'', c] = dp - 1" using c(1) read_exp_fmt [of "dp - 1"] by simp
  then show ?thesis unfolding c(2) using read_mantissa [OF assms, of "[CHR ''e'', CHR ''-'', c]"]
    by (simp add: exp_tail_def tail_exp_def)
qed (use read_fmt_e [OF assms] in simp)

lemma json_number_reads: "normal x \<Longrightarrow> read_number (json_number x) = x"
  using shortest_reads [of x] shortest_digits [of x] shortest_nonempty [of x] shortest_zero [of x]
  by (cases "shortest x"; cases "fst x = 0") (simp_all add: json_number_def read_json_e read_fmt_f)

lemma xml_number_reads: "normal x \<Longrightarrow> read_number (xml_number x) = x"
  using shortest_reads [of x] shortest_digits [of x] shortest_nonempty [of x] shortest_zero [of x]
  by (cases "shortest x"; cases "fst x = 0") (simp_all add: xml_number_def read_fmt_e read_fmt_f)

text \<open>
  The number written for any duration of the 64-bit range, in the layout of JSON or in that of XML,
  reads back as the \<open>float64\<close> of its seconds.
\<close>

lemma seconds_read_back:
  assumes "d < 2 ^ 63"
  shows "read_number (json_number (Seconds d)) = Seconds d \<and> read_number (xml_number (Seconds d)) = Seconds d"
  using json_number_reads [OF normal_Seconds [OF assms]] xml_number_reads [OF normal_Seconds [OF assms]] by blast

text \<open>The characters of a number.\<close>

definition numeric :: "char \<Rightarrow> bool" where
  "numeric c \<longleftrightarrow> is_digit_ascii c \<or> c \<in> {CHR ''+'', CHR ''-'', CHR ''.'', CHR ''e''}"

lemma numeric_digits: "digits s \<Longrightarrow> list_all numeric s"
  by (auto simp: digits_def numeric_def list_all_iff)

lemma numeric_marks [simp]: "numeric CHR ''+''" "numeric CHR ''-''" "numeric CHR ''.''" "numeric CHR ''e''" "numeric zero_digit"
  by (auto simp: numeric_def)

lemma numeric_fmt:
  assumes "digits ds"
  shows "list_all numeric (fmt_f (ds, dp))" and "list_all numeric (fmt_e (ds, dp))"
  using assms numeric_digits [OF assms]
  by (auto simp: fmt_f_def fmt_e_def fmt_exp_def numeric_digits digits_takes numeric_def)

lemma numeric_json_e:
  assumes "digits ds" and "ds \<noteq> []"
  shows "list_all numeric (json_e (ds, dp))"
  using json_e_cases [OF assms, of dp] numeric_fmt(2) [OF assms(1), of dp] fmt_e_eq [OF assms(2), of dp] by auto

lemma fmt_nonempty: "ds \<noteq> [] \<or> dp \<le> 0 \<Longrightarrow> fmt_f (ds, dp) \<noteq> []" "fmt_e x \<noteq> []"
  by (auto simp: fmt_f_def fmt_e_def split: prod.splits)

lemma numeric_number:
  assumes "normal x"
  shows "list_all numeric (json_number x) \<and> json_number x \<noteq> []"
    and "list_all numeric (xml_number x) \<and> xml_number x \<noteq> []"
proof -
  obtain ds dp where s: "shortest x = (ds, dp)" by (cases "shortest x")
  have d: "digits ds" "fst x \<noteq> 0 \<Longrightarrow> ds \<noteq> []" "fst x = 0 \<Longrightarrow> ds = [] \<and> dp = 0"
    using shortest_digits [of x] shortest_nonempty [OF assms] shortest_zero [of x] s by auto
  have ne: "json_e (ds, dp) \<noteq> []" by (auto simp: json_e_def Let_def fmt_nonempty)
  show "list_all numeric (json_number x) \<and> json_number x \<noteq> []"
    using d numeric_fmt(1) [OF d(1)] numeric_json_e [OF d(1)] fmt_nonempty(1) [of ds dp] ne s
    by (cases "fst x = 0") (simp_all add: json_number_def)
  show "list_all numeric (xml_number x) \<and> xml_number x \<noteq> []"
    using d numeric_fmt [OF d(1)] fmt_nonempty(1) [of ds dp] fmt_nonempty(2) [of "(ds, dp)"] s
    by (cases "fst x = 0") (simp_all add: xml_number_def)
qed

end
