(* ===== verification/RunOne.thy ===== *)
theory RunOne
  imports TestHandle Decimal
begin

text \<open>
  One test under its watchdogs (\<open>runOne\<close>, \<open>runBody\<close>, \<open>runCleanups\<close>, \<open>grace\<close>, \<open>invoke\<close> of
  \<open>internal/harness/run.go\<close>). A body and a cleanup run on goroutines of their own and may outlive
  the watchdog, so they are given by what they do to the handle and when: an execution is a list of
  timestamped operations on \<open>T\<close> (each one step, under its mutex) and an end. Every interleaving
  with the harness is one assignment of timestamps. Instants and durations are nanoseconds, as
  unbounded integers; what is stated here needs no sum of durations to stay below 2^63 (292 years).
\<close>

section \<open>Executions\<close>

datatype 'c hop =
    OpLog gostring
  | OpError gostring
  | OpSkip gostring
  | OpCleanup 'c
  | OpTake

type_synonym 'c timed_ops = "(int \<times> 'c hop) list"

record 'c execution =
  exOps :: "'c timed_ops"
  exTime :: int
  exExit :: "unit exit"

text \<open>
  What the body of a test can do: the executions it may have when started at an instant, each with
  what the cleanups it registers do. Closures are numbered.
\<close>

type_synonym body = "int \<Rightarrow> nat execution \<Rightarrow> (nat \<Rightarrow> int \<Rightarrow> nat execution) \<Rightarrow> bool"

fun apply_op :: "'c hop \<Rightarrow> 'c handle \<Rightarrow> 'c handle" where
  "apply_op (OpLog m) t = t\<lparr>hLogs := hLogs t @ [m]\<rparr>"
| "apply_op (OpError m) t = h_error m t"
| "apply_op (OpSkip m) t = t\<lparr>hSkipped := True, hSkipMsg := m\<rparr>"
| "apply_op (OpCleanup c) t = t\<lparr>hCleanups := hCleanups t @ [c]\<rparr>"
| "apply_op OpTake t = t\<lparr>hCleanups := []\<rparr>"

definition apply_ops :: "'c timed_ops \<Rightarrow> 'c handle \<Rightarrow> 'c handle" where
  "apply_ops ops t = foldl (\<lambda>t (_, p). apply_op p t) t ops"

definition until :: "int \<Rightarrow> 'c timed_ops \<Rightarrow> 'c timed_ops" where
  "until \<tau> ops = filter (\<lambda>(u, _). u \<le> \<tau>) ops"

text \<open>Two goroutines on one handle: their operations in the order of their timestamps.\<close>

fun merge_ops :: "'c timed_ops \<Rightarrow> 'c timed_ops \<Rightarrow> 'c timed_ops" where
  "merge_ops [] qs = qs"
| "merge_ops ps [] = ps"
| "merge_ops ((u, p) # ps) ((v, q) # qs) =
     (if u \<le> v then (u, p) # merge_ops ps ((v, q) # qs) else (v, q) # merge_ops ((u, p) # ps) qs)"

definition handle_at :: "gostring \<Rightarrow> int \<Rightarrow> 'c timed_ops \<Rightarrow> 'c handle" where
  "handle_at name \<tau> ops = apply_ops (until \<tau> ops) (newT name)"

section \<open>The code\<close>

record runner =
  rParallel :: int
  rTimeout :: int
  rCleanupTimeout :: int
  rStallTimeout :: int
  rMaxLeaked :: int
  rWatchdogGrace :: int

definition defaultWatchdogGrace :: int where
  "defaultWatchdogGrace = 5 * 1000000000"

definition grace :: "runner \<Rightarrow> int" where
  "grace r = (if rWatchdogGrace r > 0 then rWatchdogGrace r else defaultWatchdogGrace)"

text \<open>
  \<open>invoke\<close> on an execution: the operations so far with the one it adds, and the status. \<open>dump\<close> is
  the text of a stack dump.
\<close>

definition invoke_exec :: "gostring \<Rightarrow> gostring \<Rightarrow> 'c execution \<Rightarrow> status option \<times> 'c timed_ops" where
  "invoke_exec name dump e = (case exExit e of
       Returned _ \<Rightarrow> (Some (if hFailed (handle_at name (exTime e) (exOps e)) then StatusFailed else StatusPassed),
                      exOps e)
     | FailNow \<Rightarrow> (Some StatusFailed, exOps e)
     | SkipNow \<Rightarrow> (Some StatusSkipped, exOps e)
     | Panicked v \<Rightarrow>
         (Some StatusFailed, merge_ops (exOps e) [(exTime e, OpError (''panic: '' @ v @ [CHR 0x0A] @ dump))])
     | Hangs \<Rightarrow> (None, exOps e))"

text \<open>
  What the environment decides: the stack traces, of all goroutines and of the one that panicked (they
  are cut at 16 KiB), when the run is interrupted, and, when a goroutine ends at the very instant of its timer, which of the two the
  \<open>select\<close> picks.
\<close>

record run_env =
  evTraceAll :: gostring
  evTrace :: gostring
  evCancel :: "int option"
  evTieBody :: bool
  evTieCleanup :: bool

definition maxDumpLen :: nat where
  "maxDumpLen = 16 * 1024"

definition stack_dump :: "run_env \<Rightarrow> bool \<Rightarrow> gostring" where
  "stack_dump env all = take maxDumpLen (if all then evTraceAll env else evTrace env)"

definition goroutineDump :: "run_env \<Rightarrow> gostring" where
  "goroutineDump env = stack_dump env True"

definition stack :: "run_env \<Rightarrow> gostring" where
  "stack env = stack_dump env False"

definition ends_by :: "bool \<Rightarrow> 'c execution \<Rightarrow> int \<Rightarrow> bool" where
  "ends_by tie e deadline \<longleftrightarrow>
     exExit e \<noteq> Hangs \<and> (exTime e < deadline \<or> exTime e = deadline \<and> tie)"

record 'c body_outcome =
  boStatus :: status
  boAbandoned :: bool
  boOps :: "'c timed_ops"
  boTime :: int

definition runBody :: "runner \<Rightarrow> run_env \<Rightarrow> gostring \<Rightarrow> int \<Rightarrow> 'c execution \<Rightarrow> 'c body_outcome option" where
  "runBody r env name start e =
     (let (ret, ops) = invoke_exec name (stack env) e;
          deadline = start + (rTimeout r + grace r);
          returned = map_option
            (\<lambda>st. \<lparr>boStatus = st, boAbandoned = False, boOps = ops, boTime = exTime e\<rparr>) ret
      in if rTimeout r \<le> 0 then returned
      else if ends_by (evTieBody env) e deadline then returned
      else Some \<lparr>boStatus = StatusTimeout, boAbandoned = True,
          boOps = merge_ops ops
            [(deadline, OpError (''test did not return '' @ duration_string (grace r) @
               '' after its deadline; abandoning its goroutine'' @ [CHR 0x0A] @ goroutineDump env))],
          boTime = deadline\<rparr>)"

text \<open>
  The cleanup phase from an instant on: its operations, and when it ends if it does. A cleanup is
  a closure \<open>c\<close>; \<open>cexec c \<tau>\<close> is what it does when started at \<open>\<tau>\<close>.
\<close>

definition cleanup_ops :: "'c execution \<Rightarrow> 'c timed_ops" where
  "cleanup_ops e = (case exExit e of
       Returned _ \<Rightarrow> exOps e
     | Hangs \<Rightarrow> exOps e
     | x \<Rightarrow> merge_ops (exOps e) [(exTime e, OpError (''cleanup panicked: '' @ panic_text x))])"

fun cleanup_run :: "('c \<Rightarrow> int \<Rightarrow> 'c execution) \<Rightarrow> 'c list \<Rightarrow> int \<Rightarrow> 'c timed_ops \<times> int option" where
  "cleanup_run cexec [] \<tau> = ([], Some \<tau>)"
| "cleanup_run cexec (c # cs) \<tau> =
     (let e = cexec c \<tau> in
      if exExit e = Hangs then (exOps e, None)
      else case cleanup_run cexec cs (exTime e) of (ops, end) \<Rightarrow> (merge_ops (cleanup_ops e) ops, end))"

text \<open>\<open>runCleanups\<close>: the operations on the handle up to its end, and when it ends.\<close>

definition runCleanups :: "runner \<Rightarrow> run_env \<Rightarrow> gostring \<Rightarrow> ('c \<Rightarrow> int \<Rightarrow> 'c execution) \<Rightarrow>
    'c timed_ops \<Rightarrow> int \<Rightarrow> ('c timed_ops \<times> int) option" where
  "runCleanups r env name cexec ops \<tau> =
     (let fns = hCleanups (handle_at name \<tau> ops);
          (cops, end) = cleanup_run cexec (rev fns) \<tau>;
          all = merge_ops ops ((\<tau>, OpTake) # cops);
          deadline = \<tau> + rCleanupTimeout r;
          late = OpError (''cleanups did not finish within '' @ duration_string (rCleanupTimeout r)) in
      if rCleanupTimeout r \<le> 0 then map_option (\<lambda>u. (all, u)) end
      else case end of
        Some u \<Rightarrow>
          if u < deadline \<or> u = deadline \<and> evTieCleanup env then Some (all, u)
          else Some (merge_ops all [(deadline, late)], deadline)
      | None \<Rightarrow> Some (merge_ops all [(deadline, late)], deadline))"

definition ctx_expired :: "runner \<Rightarrow> run_env \<Rightarrow> int \<Rightarrow> int \<Rightarrow> bool" where
  "ctx_expired r env start now \<longleftrightarrow>
     rTimeout r > 0 \<and> start + rTimeout r \<le> now \<or> (\<exists>c \<in> set_option (evCancel env). c \<le> now)"

definition final_status :: "bool \<Rightarrow> status \<Rightarrow> bool \<Rightarrow> bool \<Rightarrow> status" where
  "final_status abandoned st expired failed =
     (if abandoned then StatusTimeout
      else if st = StatusFailed \<and> expired then StatusTimeout
      else if st = StatusPassed \<and> failed then StatusFailed
      else st)"

definition runOne :: "runner \<Rightarrow> run_env \<Rightarrow> 'f gotest \<Rightarrow> int \<Rightarrow> 'c execution \<Rightarrow>
    ('c \<Rightarrow> int \<Rightarrow> 'c execution) \<Rightarrow> ('f run_result \<times> int) option" where
  "runOne r env test start e cexec =
     (case runBody r env (tName test) start e of
        None \<Rightarrow> None
      | Some b \<Rightarrow> (case runCleanups r env (tName test) cexec (boOps b) (boTime b) of
          None \<Rightarrow> None
        | Some (ops, now) \<Rightarrow>
            let t = handle_at (tName test) now ops in
            Some (\<lparr>resTest = test,
                   resStatus = final_status (boAbandoned b) (boStatus b)
                     (ctx_expired r env start now) (hFailed t),
                   resDuration = now - start,
                   resOutput = h_output t,
                   resSkip = hSkipMsg t\<rparr>, now)))"

lemma runOne_raw:
  assumes "runOne r env test start e cexec = Some (res, now)"
  shows "raw_status (resStatus res)" and "resTest res = test"
proof -
  from assms obtain b where b: "runBody r env (tName test) start e = Some b"
    and res: "resStatus res = final_status (boAbandoned b) (boStatus b) (ctx_expired r env start now)
      (hFailed (handle_at (tName test) now (fst (the (runCleanups r env (tName test) cexec (boOps b) (boTime b))))))"
      "resTest res = test"
    by (auto simp: runOne_def Let_def split: option.splits)
  have "raw_status (boStatus b)"
    using b by (auto simp: runBody_def invoke_exec_def raw_status_def Let_def split: exit.splits if_splits)
  then show "raw_status (resStatus res)" using res(1) by (auto simp: final_status_def raw_status_def)
  show "resTest res = test" by (rule res(2))
qed

section \<open>What the operations leave on the handle\<close>

lemma set_merge_ops [simp]: "set (merge_ops ps qs) = set ps \<union> set qs"
  by (induction ps qs rule: merge_ops.induct) auto

lemma set_until [simp]: "set (until \<tau> ops) = {(u, p). (u, p) \<in> set ops \<and> u \<le> \<tau>}"
  by (auto simp: until_def)

definition has_error :: "int \<Rightarrow> 'c timed_ops \<Rightarrow> bool" where
  "has_error \<tau> ops \<longleftrightarrow> (\<exists>(u, p) \<in> set ops. u \<le> \<tau> \<and> (case p of OpError _ \<Rightarrow> True | _ \<Rightarrow> False))"

lemma has_error_merge [simp]: "has_error \<tau> (merge_ops ps qs) \<longleftrightarrow> has_error \<tau> ps \<or> has_error \<tau> qs"
  by (auto simp: has_error_def)

lemma has_error_Nil [simp]: "\<not> has_error \<tau> []"
  by (simp add: has_error_def)

lemma has_error_Cons [simp]:
  "has_error \<tau> ((u, p) # ops) \<longleftrightarrow> u \<le> \<tau> \<and> (case p of OpError _ \<Rightarrow> True | _ \<Rightarrow> False) \<or> has_error \<tau> ops"
  by (auto simp: has_error_def)

lemma has_error_mono: "has_error \<tau> ops \<Longrightarrow> \<tau> \<le> \<tau>' \<Longrightarrow> has_error \<tau>' ops"
  unfolding has_error_def by (fastforce elim!: bexI [rotated] split: prod.splits)

lemma hFailed_apply_op:
  "hFailed (apply_op p t) \<longleftrightarrow> hFailed t \<or> (case p of OpError _ \<Rightarrow> True | _ \<Rightarrow> False)"
  by (cases p) (simp_all add: h_error_def)

lemma hFailed_apply_ops:
  "hFailed (apply_ops ops t) \<longleftrightarrow>
     hFailed t \<or> (\<exists>(u, p) \<in> set ops. case p of OpError _ \<Rightarrow> True | _ \<Rightarrow> False)"
  unfolding apply_ops_def
  by (induction ops arbitrary: t) (auto simp: hFailed_apply_op)

lemma hFailed_handle_at [simp]: "hFailed (handle_at name \<tau> ops) \<longleftrightarrow> has_error \<tau> ops"
  by (auto simp: handle_at_def hFailed_apply_ops has_error_def newT_def)

lemma invoke_exec_simps:
  "exExit e = Returned x \<Longrightarrow> invoke_exec name dump e =
     (Some (if has_error (exTime e) (exOps e) then StatusFailed else StatusPassed), exOps e)"
  "exExit e = Hangs \<Longrightarrow> invoke_exec name dump e = (None, exOps e)"
  by (simp_all add: invoke_exec_def)

lemma invoke_exec_passed:
  "invoke_exec name dump e = (Some StatusPassed, ops) \<longleftrightarrow>
     exExit e = Returned () \<and> \<not> has_error (exTime e) (exOps e) \<and> ops = exOps e"
  by (cases "exExit e") (auto simp: invoke_exec_def)

lemma invoke_exec_raw:
  "invoke_exec name dump e = (Some st, ops) \<Longrightarrow> st \<in> {StatusPassed, StatusFailed, StatusSkipped}"
  by (cases "exExit e") (auto simp: invoke_exec_def split: if_splits)

lemma runBody_cases:
  assumes "runBody r env name start e = Some b"
  obtains
    (returned) "\<not> boAbandoned b" "boTime b = exTime e"
      "invoke_exec name (stack env) e = (Some (boStatus b), boOps b)"
      "rTimeout r > 0 \<Longrightarrow> ends_by (evTieBody env) e (start + (rTimeout r + grace r))"
  | (abandoned) "boAbandoned b" "boTime b = start + (rTimeout r + grace r)" "rTimeout r > 0"
      "boStatus b = StatusTimeout" "has_error (boTime b) (boOps b)"
      "\<not> ends_by (evTieBody env) e (start + (rTimeout r + grace r))"
  using assms unfolding runBody_def Let_def
  by (cases "invoke_exec name (stack env) e") (auto split: if_splits)

lemma runBody_returns:
  assumes "rTimeout r > 0"
  shows "\<exists>b. runBody r env name start e = Some b \<and> boTime b \<le> start + rTimeout r + grace r"
proof (cases "ends_by (evTieBody env) e (start + (rTimeout r + grace r))")
  case True
  then have "exExit e \<noteq> Hangs" "exTime e \<le> start + (rTimeout r + grace r)"
    by (auto simp: ends_by_def)
  moreover obtain st ops where "invoke_exec name (stack env) e = (Some st, ops)"
    using \<open>exExit e \<noteq> Hangs\<close> by (cases "exExit e") (auto simp: invoke_exec_def)
  ultimately show ?thesis using assms True by (simp add: runBody_def)
next
  case False
  then show ?thesis using assms
    by (cases "invoke_exec name (stack env) e") (simp add: runBody_def Let_def)
qed

lemma runCleanups_returns:
  assumes "rCleanupTimeout r > 0"
  shows "\<exists>all now. runCleanups r env name cexec ops \<tau> = Some (all, now) \<and> now \<le> \<tau> + rCleanupTimeout r"
  using assms unfolding runCleanups_def Let_def
  by (auto split: prod.splits option.splits)

lemma cleanup_run_time:
  "(\<And>c \<tau>. \<tau> \<le> exTime (cexec c \<tau>)) \<Longrightarrow> cleanup_run cexec cs \<tau> = (ops, Some u) \<Longrightarrow> \<tau> \<le> u"
proof (induction cs arbitrary: \<tau> ops)
  case (Cons c cs)
  from Cons.prems(2) obtain ops' where
    "cleanup_run cexec cs (exTime (cexec c \<tau>)) = (ops', Some u)"
    by (auto simp: Let_def split: if_splits prod.splits)
  then have "exTime (cexec c \<tau>) \<le> u" using Cons.IH Cons.prems(1) by blast
  then show ?case using Cons.prems(1) [of \<tau> c] by linarith
qed simp

lemma runCleanups_cases:
  assumes "runCleanups r env name cexec ops \<tau> = Some (all, now)"
  obtains cops where "cleanup_run cexec (rev (hCleanups (handle_at name \<tau> ops))) \<tau> = (cops, Some now)"
      "all = merge_ops ops ((\<tau>, OpTake) # cops)"
  | "rCleanupTimeout r > 0" "now = \<tau> + rCleanupTimeout r" "has_error now all"
  using assms unfolding runCleanups_def Let_def
  by (auto split: if_splits prod.splits option.splits)

lemma runOne_cases:
  assumes "runOne r env test start e cexec = Some (res, now)"
  obtains b ops where "runBody r env (tName test) start e = Some b"
    "runCleanups r env (tName test) cexec (boOps b) (boTime b) = Some (ops, now)"
    "resTest res = test" "resDuration res = now - start"
    "resStatus res = final_status (boAbandoned b) (boStatus b) (ctx_expired r env start now) (has_error now ops)"
    "resOutput res = h_output (handle_at (tName test) now ops)"
  using assms unfolding runOne_def Let_def
  by (auto split: option.splits prod.splits)

text \<open>Nothing recorded is dropped on the way to the result.\<close>

lemma invoke_exec_keeps: "has_error \<tau> (exOps e) \<Longrightarrow> has_error \<tau> (snd (invoke_exec name dump e))"
  by (cases "exExit e") (simp_all add: invoke_exec_def)

lemma runBody_keeps:
  assumes "runBody r env name start e = Some b" "has_error \<tau> (exOps e)"
  shows "has_error \<tau> (boOps b)"
  using assms(1) invoke_exec_keeps [OF assms(2), of name "stack env"] unfolding runBody_def Let_def
  by (cases "invoke_exec name (stack env) e") (auto split: if_splits)

lemma runCleanups_keeps:
  assumes "runCleanups r env name cexec ops \<tau> = Some (all, now)" "has_error u ops"
  shows "has_error u all"
  using assms unfolding runCleanups_def Let_def
  by (auto split: if_splits prod.splits option.splits)

lemma runOne_keeps:
  assumes "runOne r env test start e cexec = Some (res, now)" "has_error now (exOps e)"
  shows "resStatus res \<noteq> StatusPassed"
  using runOne_cases [OF assms(1)] runBody_keeps [OF _ assms(2)] runCleanups_keeps
  by (metis final_status_def status.distinct(1,3,5))

section \<open>Executions of programs\<close>

text \<open>
  An execution realises a program of the handle when it ends the way the program does and its
  operations, all done by its end, leave the handle the program leaves.
\<close>

definition realises :: "'c execution \<Rightarrow> ('c, 'w, unit) prog \<Rightarrow> ('c, 'w) tenv \<Rightarrow> bool" where
  "realises e fn s \<longleftrightarrow> (\<forall>(u, _) \<in> set (exOps e). u \<le> exTime e) \<and> fst (fn s) = exExit e \<and>
     teT (snd (fn s)) = apply_ops (exOps e) (teT s)"

lemma until_all: "\<forall>(u, _) \<in> set ops. u \<le> \<tau> \<Longrightarrow> until \<tau> ops = ops"
  by (auto simp: until_def filter_id_conv)



section \<open>Verdicts\<close>

text \<open>
  C18. The harness never hangs on a test: with a test deadline and a cleanup deadline set, whatever the
  body and the cleanups do (never return included), \<open>runOne\<close> produces a result no later than the
  deadline, the grace period and the cleanup deadline after it started.
\<close>

theorem runOne_bounded:
  assumes "rTimeout r > 0" and "rCleanupTimeout r > 0"
  shows "\<exists>res now. runOne r env test start e cexec = Some (res, now) \<and>
    now \<le> start + rTimeout r + grace r + rCleanupTimeout r"
proof -
  obtain b where b: "runBody r env (tName test) start e = Some b"
      "boTime b \<le> start + rTimeout r + grace r"
    using runBody_returns [OF assms(1)] by blast
  obtain all now where "runCleanups r env (tName test) cexec (boOps b) (boTime b) = Some (all, now)"
      "now \<le> boTime b + rCleanupTimeout r"
    using runCleanups_returns [OF assms(2)] by blast
  with b show ?thesis by (simp add: runOne_def Let_def)
qed

text \<open>
  C19. A reported pass is earned: the body returned normally before its watchdog, its cleanups ended,
  and no operation up to the verdict, by the body, by a goroutine it left behind or by a cleanup,
  recorded an error.
\<close>

theorem runOne_passed:
  assumes "runOne r env test start e cexec = Some (res, now)" and "resStatus res = StatusPassed"
  shows "exExit e = Returned () \<and>
    (rTimeout r > 0 \<longrightarrow> exTime e \<le> start + rTimeout r + grace r) \<and>
    \<not> has_error now (exOps e) \<and>
    (\<exists>cops. cleanup_run cexec (rev (hCleanups (handle_at (tName test) (exTime e) (exOps e)))) (exTime e) =
       (cops, Some now) \<and> \<not> has_error now cops)"
proof -
  obtain b ops where b: "runBody r env (tName test) start e = Some b"
    and c: "runCleanups r env (tName test) cexec (boOps b) (boTime b) = Some (ops, now)"
    and f: "final_status (boAbandoned b) (boStatus b) (ctx_expired r env start now) (has_error now ops) = StatusPassed"
    using runOne_cases [OF assms(1)] assms(2) by metis
  have na: "\<not> boAbandoned b" and st: "boStatus b = StatusPassed" and ne: "\<not> has_error now ops"
    using f by (auto simp: final_status_def split: if_splits)
  from b have inv: "invoke_exec (tName test) (stack env) e = (Some StatusPassed, boOps b)"
    and t: "boTime b = exTime e"
    and e: "rTimeout r > 0 \<Longrightarrow> ends_by (evTieBody env) e (start + (rTimeout r + grace r))"
    by (cases rule: runBody_cases; use na st in simp)+
  from c ne obtain cops where
    "cleanup_run cexec (rev (hCleanups (handle_at (tName test) (boTime b) (boOps b)))) (boTime b) = (cops, Some now)"
    "ops = merge_ops (boOps b) ((boTime b, OpTake) # cops)"
    by (cases rule: runCleanups_cases) auto
  with inv t ne e show ?thesis
    by (auto simp: invoke_exec_passed ends_by_def)
qed


text \<open>
  C21. An error recorded by a test is not lost: unless the body ended by \<open>Skipf\<close>, a recorded error
  makes the verdict \<open>failed\<close> or \<open>timeout\<close>.
\<close>

theorem runOne_error_reported:
  assumes "runOne r env test start e cexec = Some (res, now)"
    and "has_error now (exOps e)" and "exExit e \<noteq> SkipNow"
  shows "resStatus res \<in> {StatusFailed, StatusTimeout}"
proof -
  obtain b ops where b: "runBody r env (tName test) start e = Some b"
    and c: "runCleanups r env (tName test) cexec (boOps b) (boTime b) = Some (ops, now)"
    and f: "resStatus res = final_status (boAbandoned b) (boStatus b) (ctx_expired r env start now)
      (has_error now ops)"
    using runOne_cases [OF assms(1)] by metis
  have np: "resStatus res \<noteq> StatusPassed" by (rule runOne_keeps [OF assms(1,2)])
  from b show ?thesis
  proof (cases rule: runBody_cases)
    case returned
    then have "boStatus b \<in> {StatusPassed, StatusFailed}"
      using assms(3) by (cases "exExit e") (auto simp: invoke_exec_def split: if_splits)
    then show ?thesis using np f by (auto simp: final_status_def split: if_splits)
  qed (use f in \<open>simp add: final_status_def\<close>)
qed

section \<open>Examples\<close>

definition example_runner :: runner where
  "example_runner = \<lparr>rParallel = 2, rTimeout = 100, rCleanupTimeout = 50, rStallTimeout = 0,
     rMaxLeaked = 0, rWatchdogGrace = 10\<rparr>"

definition example_env :: run_env where
  "example_env = \<lparr>evTraceAll = ''D'', evTrace = ''D'', evCancel = None,
     evTieBody = True, evTieCleanup = True\<rparr>"

definition example_body :: "(int \<times> nat hop) list \<Rightarrow> int \<Rightarrow> unit exit \<Rightarrow> nat execution" where
  "example_body ops \<tau> x = \<lparr>exOps = ops, exTime = \<tau>, exExit = x\<rparr>"

definition example_cleanup :: "int \<Rightarrow> nat \<Rightarrow> int \<Rightarrow> nat execution" where
  "example_cleanup d c \<tau> = \<lparr>exOps = [], exTime = \<tau> + d, exExit = Returned ()\<rparr>"

definition example_case :: "body gotest" where
  "example_case = \<lparr>tName = ''t'', tModule = ModuleS3, tMarkers = [], tFn = Some (\<lambda>_ _ _. True)\<rparr>"

lemmas run_example_defs = example_runner_def example_env_def example_body_def example_cleanup_def
  example_case_def

lemmas run_code_defs = runOne_def runBody_def runCleanups_def invoke_exec_def ends_by_def
  handle_at_def apply_ops_def until_def newT_def h_error_def cleanup_ops_def final_status_def
  ctx_expired_def grace_def h_output_def str_join_def

theorem runOne_bounded_witness:
  "\<exists>res now. runOne example_runner example_env example_case 0 (example_body [] 0 Hangs)
      (\<lambda>c \<tau>. example_body [] 0 Hangs) = Some (res, now) \<and> now \<le> 160"
  using runOne_bounded [of example_runner example_env example_case 0 "example_body [] 0 Hangs"
      "\<lambda>c \<tau>. example_body [] 0 Hangs"]
  by (simp add: example_runner_def grace_def)

lemma example_pass:
  "\<exists>res. runOne example_runner example_env example_case 0
      (example_body [(1, OpCleanup 7)] 5 (Returned ())) (example_cleanup 3) = Some (res, 8) \<and>
    resStatus res = StatusPassed"
  by (simp add: run_example_defs run_code_defs)

theorem runOne_passed_witness:
  "exExit (example_body [(1, OpCleanup 7)] 5 (Returned ())) = Returned () \<and>
   \<not> has_error 8 (exOps (example_body [(1, OpCleanup 7)] 5 (Returned ())))"
  using example_pass runOne_passed by blast

lemma example_late:
  "\<exists>res. runOne example_runner example_env example_case 0 (example_body [(1, OpError ''x'')] 200 FailNow)
      (example_cleanup 0) = Some (res, 110) \<and> resStatus res = StatusTimeout"
  by (simp add: run_example_defs run_code_defs)


theorem runOne_error_reported_witness:
  "\<exists>res. runOne example_runner example_env example_case 0 (example_body [(1, OpError ''x'')] 200 FailNow)
      (example_cleanup 0) = Some (res, 110) \<and> resStatus res \<in> {StatusFailed, StatusTimeout}"
  using example_late runOne_error_reported [of example_runner example_env example_case 0
      "example_body [(1, OpError ''x'')] 200 FailNow" "example_cleanup 0" _ 110]
  by (fastforce simp: example_body_def)

text \<open>
  A test that fails by an assertion well before its deadline is still reported as timed out when
  its cleanups end after the deadline: the context is inspected only after the cleanups.
\<close>

theorem assertion_reported_as_timeout:
  "\<exists>e :: nat execution. \<exists>cexec res now. exExit e = FailNow \<and> exTime e < rTimeout example_runner \<and>
    runOne example_runner example_env example_case 0 e cexec = Some (res, now) \<and>
    resStatus res = StatusTimeout"
  by (rule exI [of _ "example_body [(1, OpCleanup 7), (2, OpError ''x'')] 90 FailNow"],
      rule exI [of _ "example_cleanup 20"])
    (simp add: run_example_defs run_code_defs)

text \<open>
  A test that recorded an error and then skipped itself is reported as skipped; its error does not
  show in the verdict.
\<close>

theorem skip_hides_error:
  "\<exists>e :: nat execution. \<exists>cexec res now. has_error 1 (exOps e) \<and>
    runOne example_runner example_env example_case 0 e cexec = Some (res, now) \<and>
    resStatus res = StatusSkipped"
  by (rule exI [of _ "example_body [(1, OpError ''x''), (2, OpSkip ''y'')] 2 SkipNow"],
      rule exI [of _ "example_cleanup 0"])
    (simp add: run_example_defs run_code_defs)

end
