(* ===== verification/Scheduler.thy ===== *)
theory Scheduler
  imports RunOne "HOL-Library.Sublist"
begin

text \<open>
  A run (\<open>Run\<close>, \<open>partition\<close>, \<open>runIndexes\<close>, \<open>finish\<close>, \<open>checkLeaked\<close>, \<open>watchStall\<close>, \<open>fail\<close> and \<open>collect\<close>
  of \<open>internal/harness/run.go\<close>) as a labelled step relation. A step is one synchronisation of the
  code: a send on the work queue, the feed loop leaving on \<open>ctx.Done\<close>, a worker returning from
  \<open>runOne\<close> and updating the atomics, a worker writing its result under the lock, \<open>runIndexes\<close>
  returning, an interrupt, a tick of the stall watchdog, time passing. \<open>finish\<close> is two steps since other
  workers may run between its atomics and its lock. How a run ends is in theory RunEnds.
\<close>

section \<open>State\<close>

datatype sphase = SerialPhase | ParallelPhase | Finished

datatype run_error = ErrAbandoned int | ErrStalled int

record 'f sched =
  sNow :: int
  sPhase :: sphase
  sTodo :: "nat list"
  sWorkers :: nat
  sRunning :: "(nat \<times> int) list"
  sFinishing :: "(nat \<times> 'f run_result) list"
  sResults :: "'f run_result option list"
  sObserved :: "nat list"
  sProgress :: int
  sLeaked :: int
  sErr :: "run_error option"
  sCancelAt :: "int option"
  sWatch :: "int option"
  sOut :: "('f run_result list \<times> run_error option) option"

text \<open>
  \<open>sCancelAt\<close> is when the context was cancelled, \<open>sWatch\<close> the next tick of the stall watchdog while it
  runs.
\<close>

abbreviation sCancelled :: "'f sched \<Rightarrow> bool" where
  "sCancelled s \<equiv> sCancelAt s \<noteq> None"

definition cancel_run :: "'f sched \<Rightarrow> 'f sched" where
  "cancel_run s = s\<lparr>sCancelAt := Some (case sCancelAt s of None \<Rightarrow> sNow s | Some c \<Rightarrow> c)\<rparr>"

definition MarkerSerial :: gostring where
  "MarkerSerial = ''serial''"

fun partition_from :: "nat \<Rightarrow> 'f gotest list \<Rightarrow> nat list \<times> nat list" where
  "partition_from i [] = ([], [])"
| "partition_from i (t # ts) =
     (case partition_from (Suc i) ts of (ser, par) \<Rightarrow>
        if test_marker t MarkerSerial then (i # ser, par) else (ser, i # par))"

definition run_partition :: "'f gotest list \<Rightarrow> nat list \<times> nat list" where
  "run_partition tests = partition_from 0 tests"

definition phase_workers :: "int \<Rightarrow> nat list \<Rightarrow> nat" where
  "phase_workers workers idx =
     (let w = if workers < 1 then 1 else workers
      in nat (if w > int (length idx) then int (length idx) else w))"

definition enter_phase :: "sphase \<Rightarrow> nat list \<Rightarrow> int \<Rightarrow> 'f sched \<Rightarrow> 'f sched" where
  "enter_phase ph idx workers s =
     s\<lparr>sPhase := ph, sTodo := idx, sWorkers := phase_workers workers idx\<rparr>"

definition watch_interval :: "runner \<Rightarrow> int" where
  "watch_interval r = min (30 * 1000000000) (rStallTimeout r)"

definition run_start :: "runner \<Rightarrow> 'f gotest list \<Rightarrow> int \<Rightarrow> 'f sched" where
  "run_start r tests now = enter_phase SerialPhase (fst (run_partition tests)) 1
     \<lparr>sNow = now, sPhase = SerialPhase, sTodo = [], sWorkers = 0, sRunning = [], sFinishing = [],
      sResults = replicate (length tests) None, sObserved = [], sProgress = now, sLeaked = 0,
      sErr = None, sCancelAt = None,
      sWatch = (if rStallTimeout r > 0 then Some (now + watch_interval r) else None), sOut = None\<rparr>"

definition sched_fail :: "run_error \<Rightarrow> 'f sched \<Rightarrow> 'f sched" where
  "sched_fail err s = (case sErr s of None \<Rightarrow> s\<lparr>sErr := Some err\<rparr> | Some _ \<Rightarrow> s)"

definition checkLeaked :: "runner \<Rightarrow> 'f sched \<Rightarrow> 'f sched" where
  "checkLeaked r s =
     (let n = sLeaked s + 1; s' = s\<lparr>sLeaked := n\<rparr>
      in if rMaxLeaked r > 0 \<and> n \<ge> rMaxLeaked r then sched_fail (ErrAbandoned n) s' else s')"

text \<open>The two halves of \<open>finish\<close>.\<close>

definition finish_enter :: "runner \<Rightarrow> nat \<Rightarrow> 'f run_result \<Rightarrow> 'f sched \<Rightarrow> 'f sched" where
  "finish_enter r i res s =
     (let s' = s\<lparr>sProgress := sNow s, sRunning := filter (\<lambda>(j, _). j \<noteq> i) (sRunning s),
                 sFinishing := sFinishing s @ [(i, res)]\<rparr>
      in if resStatus res = StatusTimeout then checkLeaked r s' else s')"

definition finish_record :: "nat \<Rightarrow> 'f run_result \<Rightarrow> 'f sched \<Rightarrow> 'f sched" where
  "finish_record i res s =
     s\<lparr>sFinishing := filter (\<lambda>(j, _). j \<noteq> i) (sFinishing s),
       sResults := (sResults s)[i := Some res], sObserved := sObserved s @ [i]\<rparr>"

text \<open>
  \<open>watchStall\<close>: what a tick of its timer looks for, what it does then, and when the next tick is. A timer
  whose receiver is late drops the ticks it missed.
\<close>

definition stalled :: "runner \<Rightarrow> 'f sched \<Rightarrow> bool" where
  "stalled r s \<longleftrightarrow> rStallTimeout r > 0 \<and> \<not> sNow s - sProgress s < rStallTimeout r"

definition stall_abort :: "runner \<Rightarrow> 'f sched \<Rightarrow> 'f sched" where
  "stall_abort r s = (cancel_run (sched_fail (ErrStalled (rStallTimeout r)) s))\<lparr>sWatch := None\<rparr>"

definition next_tick :: "runner \<Rightarrow> int \<Rightarrow> int \<Rightarrow> int" where
  "next_tick r \<tau> now = \<tau> + watch_interval r * ((now - \<tau>) div watch_interval r + 1)"

definition collect :: "'f sched \<Rightarrow> 'f run_result list" where
  "collect s = concat (map (\<lambda>o'. case o' of None \<Rightarrow> [] | Some res \<Rightarrow> [res]) (sResults s))"

definition run_return :: "'f sched \<Rightarrow> 'f sched" where
  "run_return s = s\<lparr>sPhase := Finished, sWatch := None, sOut := Some (collect s, sErr s)\<rparr>"

definition in_flight :: "'f sched \<Rightarrow> nat list" where
  "in_flight s = map fst (sRunning s) @ map fst (sFinishing s)"

definition phase_over :: "'f sched \<Rightarrow> bool" where
  "phase_over s \<longleftrightarrow> sTodo s = [] \<and> (in_flight s = [] \<or> sCancelled s)"

section \<open>Steps\<close>

text \<open>
  What \<open>runOne\<close> may yield for a test started at an instant: over every environment in which the run
  was cancelled then, every execution the body may have and every behaviour of its cleanups.
\<close>

definition yields :: "runner \<Rightarrow> int option \<Rightarrow> body gotest \<Rightarrow> int \<Rightarrow> body run_result \<Rightarrow> int \<Rightarrow> bool" where
  "yields r cancel test start res now \<longleftrightarrow>
     (\<exists>env f e cexec. tFn test = Some f \<and> f start e cexec \<and> evCancel env = cancel \<and>
       runOne r env test start e cexec = Some (res, now))"

datatype sevent = EvTick | EvInterrupt | EvWatch | EvStall | EvFeed | EvBreak | EvComplete nat | EvRecord nat | EvPhase

inductive sstep :: "runner \<Rightarrow> body gotest list \<Rightarrow> body sched \<Rightarrow> sevent \<Rightarrow> body sched \<Rightarrow> bool"
  for r tests where
  tick: "0 \<le> d \<Longrightarrow> sstep r tests s EvTick (s\<lparr>sNow := sNow s + d\<rparr>)"
| interrupt: "sstep r tests s EvInterrupt (cancel_run s)"
| watch: "sWatch s = Some \<tau> \<Longrightarrow> \<tau> \<le> sNow s \<Longrightarrow> \<not> stalled r s \<Longrightarrow>
    sstep r tests s EvWatch (s\<lparr>sWatch := Some (next_tick r \<tau> (sNow s))\<rparr>)"
| unwatch: "sCancelled s \<Longrightarrow> sstep r tests s EvWatch (s\<lparr>sWatch := None\<rparr>)"
| stall: "sWatch s = Some \<tau> \<Longrightarrow> \<tau> \<le> sNow s \<Longrightarrow> stalled r s \<Longrightarrow> sstep r tests s EvStall (stall_abort r s)"
| feed: "sPhase s \<noteq> Finished \<Longrightarrow> sTodo s = i # todo \<Longrightarrow> length (in_flight s) < sWorkers s \<Longrightarrow>
    sstep r tests s EvFeed (s\<lparr>sTodo := todo, sRunning := sRunning s @ [(i, sNow s)]\<rparr>)"
| break_feed: "sPhase s \<noteq> Finished \<Longrightarrow> sCancelled s \<Longrightarrow> sTodo s \<noteq> [] \<Longrightarrow>
    sstep r tests s EvBreak (s\<lparr>sTodo := []\<rparr>)"
| complete: "(i, start) \<in> set (sRunning s) \<Longrightarrow> yields r (sCancelAt s) (tests ! i) start res now \<Longrightarrow> now \<le> sNow s \<Longrightarrow>
    sstep r tests s (EvComplete i) (finish_enter r i res s)"
| record_result: "(i, res) \<in> set (sFinishing s) \<Longrightarrow>
    sstep r tests s (EvRecord i) (finish_record i res s)"
| serial_done: "sPhase s = SerialPhase \<Longrightarrow> phase_over s \<Longrightarrow> \<not> sCancelled s \<Longrightarrow>
    sstep r tests s EvPhase (enter_phase ParallelPhase (snd (run_partition tests)) (rParallel r) s)"
| serial_aborted: "sPhase s = SerialPhase \<Longrightarrow> phase_over s \<Longrightarrow> sCancelled s \<Longrightarrow>
    sstep r tests s EvPhase (run_return s)"
| parallel_done: "sPhase s = ParallelPhase \<Longrightarrow> phase_over s \<Longrightarrow>
    sstep r tests s EvPhase (run_return s)"

inductive_cases sstep_elim: "sstep r tests s ev s'"

inductive ssteps :: "runner \<Rightarrow> body gotest list \<Rightarrow> body sched \<Rightarrow> sevent list \<Rightarrow> body sched \<Rightarrow> bool"
  for r tests where
  ssteps_refl: "ssteps r tests s [] s"
| ssteps_step: "sstep r tests s ev s' \<Longrightarrow> ssteps r tests s' evs s'' \<Longrightarrow> ssteps r tests s (ev # evs) s''"

definition run_reaches :: "runner \<Rightarrow> body gotest list \<Rightarrow> body sched \<Rightarrow> bool" where
  "run_reaches r tests s \<longleftrightarrow> (\<exists>now evs. ssteps r tests (run_start r tests now) evs s)"

lemma ssteps_append: "ssteps r tests s evs s' \<Longrightarrow> ssteps r tests s' evs' s'' \<Longrightarrow> ssteps r tests s (evs @ evs') s''"
  by (induction rule: ssteps.induct) (auto intro: ssteps_step)

section \<open>Partition\<close>

lemma partition_from_props:
  "partition_from k ts = (a, b) \<Longrightarrow>
    a = filter (\<lambda>i. test_marker (ts ! (i - k)) MarkerSerial) [k ..< k + length ts] \<and>
    b = filter (\<lambda>i. \<not> test_marker (ts ! (i - k)) MarkerSerial) [k ..< k + length ts]"
proof (induction ts arbitrary: k a b)
  case (Cons t ts)
  obtain a' b' where p: "partition_from (Suc k) ts = (a', b')" by (cases "partition_from (Suc k) ts")
  have shift: "filter (\<lambda>i. P ((t # ts) ! (i - k))) [Suc k ..< Suc (k + length ts)] =
      filter (\<lambda>i. P (ts ! (i - Suc k))) [Suc k ..< Suc k + length ts]" for P
    by (rule filter_cong) (auto simp: nth_Cons' Suc_diff_Suc)
  have up: "[k ..< Suc (k + length ts)] = k # [Suc k ..< Suc (k + length ts)]"
    by (subst upt_conv_Cons) (simp_all del: upt_Suc)
  show ?case
    using Cons.prems Cons.IH [OF p] shift [of "\<lambda>t. test_marker t MarkerSerial"]
      shift [of "\<lambda>t. \<not> test_marker t MarkerSerial"] up
    by (simp add: p split: if_splits del: upt_Suc)
qed simp

lemma run_partition_eq:
  "run_partition tests =
    (filter (\<lambda>i. test_marker (tests ! i) MarkerSerial) [0 ..< length tests],
     filter (\<lambda>i. \<not> test_marker (tests ! i) MarkerSerial) [0 ..< length tests])"
  using partition_from_props [of 0 tests] unfolding run_partition_def
  by (cases "partition_from 0 tests") auto

section \<open>Invariants\<close>

text \<open>An invariant holds at the start and is kept by every step.\<close>

locale run_invariant =
  fixes r :: runner and tests :: "body gotest list" and I :: "body sched \<Rightarrow> bool"
  assumes start: "I (run_start r tests now)"
    and step: "I s \<Longrightarrow> sstep r tests s ev s' \<Longrightarrow> I s'"
begin

lemma along: "ssteps r tests s evs s' \<Longrightarrow> I s \<Longrightarrow> I s'"
  by (induction rule: ssteps.induct) (auto intro: step)

lemma reached: "run_reaches r tests s \<Longrightarrow> I s"
  unfolding run_reaches_def using along start by blast

end

lemmas sched_state_defs = enter_phase_def sched_fail_def checkLeaked_def finish_enter_def
  finish_record_def run_return_def Let_def

lemma checkLeaked_sel [simp]:
  "sNow (checkLeaked r s) = sNow s" "sPhase (checkLeaked r s) = sPhase s"
  "sTodo (checkLeaked r s) = sTodo s" "sWorkers (checkLeaked r s) = sWorkers s"
  "sRunning (checkLeaked r s) = sRunning s" "sFinishing (checkLeaked r s) = sFinishing s"
  "sResults (checkLeaked r s) = sResults s" "sObserved (checkLeaked r s) = sObserved s"
  "sProgress (checkLeaked r s) = sProgress s" "sLeaked (checkLeaked r s) = sLeaked s + 1"
  "sCancelAt (checkLeaked r s) = sCancelAt s" "sWatch (checkLeaked r s) = sWatch s" "sOut (checkLeaked r s) = sOut s"
  by (simp_all add: checkLeaked_def sched_fail_def Let_def split: option.splits)

lemma sched_fail_sel [simp]:
  "sNow (sched_fail e s) = sNow s" "sPhase (sched_fail e s) = sPhase s"
  "sTodo (sched_fail e s) = sTodo s" "sWorkers (sched_fail e s) = sWorkers s"
  "sRunning (sched_fail e s) = sRunning s" "sFinishing (sched_fail e s) = sFinishing s"
  "sResults (sched_fail e s) = sResults s" "sObserved (sched_fail e s) = sObserved s"
  "sProgress (sched_fail e s) = sProgress s" "sLeaked (sched_fail e s) = sLeaked s"
  "sCancelAt (sched_fail e s) = sCancelAt s" "sWatch (sched_fail e s) = sWatch s" "sOut (sched_fail e s) = sOut s"
  by (simp_all add: sched_fail_def split: option.splits)

lemma cancel_run_sel [simp]:
  "sNow (cancel_run s) = sNow s" "sPhase (cancel_run s) = sPhase s" "sTodo (cancel_run s) = sTodo s"
  "sWorkers (cancel_run s) = sWorkers s" "sRunning (cancel_run s) = sRunning s"
  "sFinishing (cancel_run s) = sFinishing s" "sResults (cancel_run s) = sResults s"
  "sObserved (cancel_run s) = sObserved s" "sProgress (cancel_run s) = sProgress s"
  "sLeaked (cancel_run s) = sLeaked s" "sErr (cancel_run s) = sErr s" "sWatch (cancel_run s) = sWatch s"
  "sOut (cancel_run s) = sOut s" "sCancelAt (cancel_run s) \<noteq> None"
  by (simp_all add: cancel_run_def)

lemma stall_abort_sel [simp]:
  "sNow (stall_abort r s) = sNow s" "sPhase (stall_abort r s) = sPhase s" "sTodo (stall_abort r s) = sTodo s"
  "sWorkers (stall_abort r s) = sWorkers s" "sRunning (stall_abort r s) = sRunning s"
  "sFinishing (stall_abort r s) = sFinishing s" "sResults (stall_abort r s) = sResults s"
  "sObserved (stall_abort r s) = sObserved s" "sProgress (stall_abort r s) = sProgress s"
  "sLeaked (stall_abort r s) = sLeaked s" "sOut (stall_abort r s) = sOut s"
  "sCancelAt (stall_abort r s) \<noteq> None" "sWatch (stall_abort r s) = None" "sErr (stall_abort r s) = sErr (sched_fail (ErrStalled (rStallTimeout r)) s)"
  by (simp_all add: stall_abort_def)

lemma finish_enter_sel [simp]:
  "sPhase (finish_enter r i res s) = sPhase s" "sTodo (finish_enter r i res s) = sTodo s"
  "sWorkers (finish_enter r i res s) = sWorkers s"
  "sRunning (finish_enter r i res s) = filter (\<lambda>(j, _). j \<noteq> i) (sRunning s)"
  "sFinishing (finish_enter r i res s) = sFinishing s @ [(i, res)]"
  "sResults (finish_enter r i res s) = sResults s" "sObserved (finish_enter r i res s) = sObserved s"
  "sCancelAt (finish_enter r i res s) = sCancelAt s" "sWatch (finish_enter r i res s) = sWatch s" "sOut (finish_enter r i res s) = sOut s"
  "sNow (finish_enter r i res s) = sNow s" "sProgress (finish_enter r i res s) = sNow s"
  by (simp_all add: finish_enter_def Let_def)

lemma finish_record_sel [simp]:
  "sPhase (finish_record i res s) = sPhase s" "sTodo (finish_record i res s) = sTodo s"
  "sWorkers (finish_record i res s) = sWorkers s" "sRunning (finish_record i res s) = sRunning s"
  "sFinishing (finish_record i res s) = filter (\<lambda>(j, _). j \<noteq> i) (sFinishing s)"
  "sResults (finish_record i res s) = (sResults s)[i := Some res]"
  "sObserved (finish_record i res s) = sObserved s @ [i]"
  "sCancelAt (finish_record i res s) = sCancelAt s" "sWatch (finish_record i res s) = sWatch s" "sOut (finish_record i res s) = sOut s"
  "sErr (finish_record i res s) = sErr s" "sLeaked (finish_record i res s) = sLeaked s"
  "sNow (finish_record i res s) = sNow s" "sProgress (finish_record i res s) = sProgress s"
  by (simp_all add: finish_record_def)

lemma enter_phase_sel [simp]:
  "sPhase (enter_phase ph idx w s) = ph" "sTodo (enter_phase ph idx w s) = idx"
  "sWorkers (enter_phase ph idx w s) = phase_workers w idx"
  "sRunning (enter_phase ph idx w s) = sRunning s" "sFinishing (enter_phase ph idx w s) = sFinishing s"
  "sResults (enter_phase ph idx w s) = sResults s" "sObserved (enter_phase ph idx w s) = sObserved s"
  "sCancelAt (enter_phase ph idx w s) = sCancelAt s" "sWatch (enter_phase ph idx w s) = sWatch s" "sOut (enter_phase ph idx w s) = sOut s"
  "sErr (enter_phase ph idx w s) = sErr s" "sLeaked (enter_phase ph idx w s) = sLeaked s"
  "sNow (enter_phase ph idx w s) = sNow s" "sProgress (enter_phase ph idx w s) = sProgress s"
  by (simp_all add: enter_phase_def)

lemma map_fst_filter_neq: "map fst (filter (\<lambda>(j, _). j \<noteq> i) xs) = filter (\<lambda>j. j \<noteq> i) (map fst xs)"
  by (induction xs) auto

lemma length_filter_neq: "(i, x) \<in> set xs \<Longrightarrow> length (filter (\<lambda>(j, _). j \<noteq> i) xs) < length xs"
  by (rule length_filter_less [where x = "(i, x)"]) auto

subsection \<open>Every test is in one place\<close>

definition places :: "'f gotest list \<Rightarrow> 'f sched \<Rightarrow> nat list" where
  "places tests s = sTodo s @ in_flight s @ sObserved s @
     (if sPhase s = SerialPhase then snd (run_partition tests) else [])"

definition booked :: "'f gotest list \<Rightarrow> 'f sched \<Rightarrow> bool" where
  "booked tests s \<longleftrightarrow> distinct (places tests s) \<and> set (places tests s) \<subseteq> {..<length tests} \<and>
     (sCancelled s \<or> set (places tests s) = {..<length tests}) \<and>
     length (sResults s) = length tests \<and>
     (\<forall>i < length tests. sResults s ! i \<noteq> None \<longleftrightarrow> i \<in> set (sObserved s))"

lemma partition_splits:
  "distinct (fst (run_partition tests) @ snd (run_partition tests))"
  "set (fst (run_partition tests)) \<union> set (snd (run_partition tests)) = {..<length tests}"
  by (auto simp: run_partition_eq)

lemma booked_start: "booked tests (run_start r tests now)"
  using partition_splits [of tests]
  by (auto simp: booked_def places_def run_start_def in_flight_def)

lemma booked_step:
  assumes "booked tests s" and "sstep r tests s ev s'"
  shows "booked tests s'"
  using assms(2)
proof cases
  case (feed i todo)
  then show ?thesis using assms(1) by (auto simp: booked_def places_def in_flight_def)
next
  case break_feed
  then show ?thesis using assms(1) by (auto simp: booked_def places_def in_flight_def)
next
  case (complete i start res now)
  then have "i \<in> fst ` set (sRunning s)" by force
  then show ?thesis using assms(1) complete(2)
    by (auto simp: booked_def places_def in_flight_def map_fst_filter_neq simp del: map_map)
next
  case (record_result i res)
  then have fin: "i \<in> fst ` set (sFinishing s)" by force
  then have "i < length tests" using assms(1) by (auto simp: booked_def places_def in_flight_def)
  then have "\<forall>j < length tests. (sResults s)[i := Some res] ! j \<noteq> None \<longleftrightarrow> j \<in> insert i (set (sObserved s))"
    using assms(1) by (simp add: booked_def nth_list_update)
  with fin show ?thesis using assms(1) record_result(2)
    by (auto simp: booked_def places_def in_flight_def map_fst_filter_neq)
next
  case serial_done
  then show ?thesis using assms(1) by (auto simp: booked_def places_def in_flight_def phase_over_def)
next
  case serial_aborted
  then show ?thesis using assms(1) by (auto simp: booked_def places_def in_flight_def run_return_def)
next
  case parallel_done
  then show ?thesis using assms(1) by (auto simp: booked_def places_def in_flight_def run_return_def)
qed (use assms(1) in \<open>auto simp: booked_def places_def in_flight_def\<close>)

interpretation booked: run_invariant r tests "booked tests" for r tests
  by unfold_locales (auto intro: booked_start booked_step)

subsection \<open>Workers\<close>

definition serial_index :: "'f gotest list \<Rightarrow> nat \<Rightarrow> bool" where
  "serial_index tests i \<longleftrightarrow> test_marker (tests ! i) MarkerSerial"

definition isolated :: "runner \<Rightarrow> 'f gotest list \<Rightarrow> 'f sched \<Rightarrow> bool" where
  "isolated r tests s \<longleftrightarrow> length (in_flight s) \<le> sWorkers s \<and> sWorkers s \<le> nat (max 1 (rParallel r)) \<and>
     (sPhase s = SerialPhase \<longrightarrow> sWorkers s \<le> 1) \<and>
     (1 < sWorkers s \<longrightarrow> (\<forall>i \<in> set (sTodo s) \<union> set (in_flight s). \<not> serial_index tests i))"

lemma phase_workers_le: "phase_workers w idx \<le> nat (max 1 w)"
  unfolding phase_workers_def Let_def by (rule nat_mono) simp

lemma isolated_start: "isolated r tests (run_start r tests now)"
proof -
  have one: "phase_workers 1 idx \<le> 1" for idx using phase_workers_le [of 1 idx] by simp
  moreover have "1 \<le> nat (max 1 (rParallel r))" using nat_mono [of 1 "max 1 (rParallel r)"] by simp
  ultimately have "phase_workers 1 idx \<le> nat (max 1 (rParallel r))" for idx by (meson le_trans)
  then show ?thesis
    using one [of "fst (run_partition tests)"] by (simp add: isolated_def run_start_def in_flight_def linorder_not_less)
qed

lemma in_flight_complete:
  "(i, start) \<in> set (sRunning s) \<Longrightarrow>
    length (in_flight (finish_enter r i res s)) \<le> length (in_flight s) \<and>
    set (in_flight (finish_enter r i res s)) \<subseteq> set (in_flight s)"
  using length_filter_neq [of i start "sRunning s"] by (force simp: in_flight_def)

lemma in_flight_record:
  "length (in_flight (finish_record i res s)) \<le> length (in_flight s) \<and>
    set (in_flight (finish_record i res s)) \<subseteq> set (in_flight s)"
  by (auto simp: in_flight_def)

lemma isolated_step:
  assumes "isolated r tests s" and "sstep r tests s ev s'"
  shows "isolated r tests s'"
  using assms(2)
proof cases
  case (feed i todo)
  then show ?thesis using assms(1) by (auto simp: isolated_def in_flight_def)
next
  case break_feed
  then show ?thesis using assms(1) by (auto simp: isolated_def in_flight_def)
next
  case (complete i start res now)
  then show ?thesis using assms(1) in_flight_complete [OF complete(3), of r res]
    by (auto simp: isolated_def)
next
  case (record_result i res)
  then show ?thesis using assms(1) in_flight_record [of i res s]
    by (auto simp: isolated_def)
next
  case serial_done
  then have "in_flight s' = []" by (simp add: phase_over_def in_flight_def)
  then show ?thesis using serial_done phase_workers_le [of "rParallel r"]
    by (auto simp: isolated_def serial_index_def run_partition_eq)
next
  case serial_aborted
  then show ?thesis using assms(1) by (auto simp: isolated_def in_flight_def run_return_def)
next
  case parallel_done
  then show ?thesis using assms(1) by (auto simp: isolated_def in_flight_def run_return_def)
qed (use assms(1) in \<open>auto simp: isolated_def in_flight_def\<close>)

interpretation isolated: run_invariant r tests "isolated r tests" for r tests
  by unfold_locales (auto intro: isolated_start isolated_step)

text \<open>
  C22. A run keeps at most \<open>max 1 Parallel\<close> tests in flight, at every moment, and a test marked serial is
  only ever in flight alone.
\<close>

theorem run_isolation:
  assumes "run_reaches r tests s"
  shows "length (in_flight s) \<le> nat (max 1 (rParallel r)) \<and>
    (\<forall>i \<in> set (in_flight s). serial_index tests i \<longrightarrow> in_flight s = [i])"
proof -
  have iso: "isolated r tests s" using isolated.reached assms .
  have "in_flight s = [i]" if i: "i \<in> set (in_flight s)" "serial_index tests i" for i
  proof -
    have "\<not> 1 < sWorkers s" using iso i by (auto simp: isolated_def)
    then have "length (in_flight s) \<le> 1" using iso by (auto simp: isolated_def)
    then show ?thesis using i(1) by (cases "in_flight s") auto
  qed
  with iso show ?thesis by (auto simp: isolated_def)
qed


subsection \<open>Results\<close>

text \<open>An outcome of a test: of a run in which no interrupt and no stall occurred, one of an uncancelled context.\<close>

definition outcome_of :: "runner \<Rightarrow> bool \<Rightarrow> body gotest list \<Rightarrow> nat \<Rightarrow> body run_result \<Rightarrow> bool" where
  "outcome_of r cancelled tests i res \<longleftrightarrow>
     (\<exists>start now c. yields r c (tests ! i) start res now \<and> (c \<noteq> None \<longrightarrow> cancelled))"

lemma outcome_of_mono: "outcome_of r b tests i res \<Longrightarrow> (b \<Longrightarrow> b') \<Longrightarrow> outcome_of r b' tests i res"
  unfolding outcome_of_def by blast

definition sound_at :: "runner \<Rightarrow> bool \<Rightarrow> body gotest list \<Rightarrow> body sched \<Rightarrow> bool" where
  "sound_at r b tests s \<longleftrightarrow> (\<forall>(i, res) \<in> set (sFinishing s). outcome_of r b tests i res) \<and>
     (\<forall>i < length (sResults s). \<forall>res. sResults s ! i = Some res \<longrightarrow> outcome_of r b tests i res)"

lemma sound_at_mono: "sound_at r b tests s \<Longrightarrow> (b \<Longrightarrow> b') \<Longrightarrow> sound_at r b' tests s"
  unfolding sound_at_def using outcome_of_mono by (fastforce split: prod.splits)

definition sound :: "runner \<Rightarrow> body gotest list \<Rightarrow> body sched \<Rightarrow> bool" where
  "sound r tests s \<longleftrightarrow> sound_at r (sCancelled s) tests s"

lemma cancelled_stays:
  assumes "sstep r tests s ev s'" and "sCancelled s"
  shows "sCancelled s'"
  using assms(1) by cases (use assms(2) in \<open>simp_all add: run_return_def del: not_None_eq\<close>)

lemma list_update_cases: "xs[i := x] ! j = y \<Longrightarrow> j = i \<and> y = x \<or> xs ! j = y"
  by (cases "i < length xs"; cases "i = j") (auto simp: list_update_beyond)

lemma sound_at_record:
  assumes "sound_at r b tests s" and "(i, res) \<in> set (sFinishing s)"
  shows "sound_at r b tests (finish_record i res s)"
proof -
  have o: "outcome_of r b tests i res" using assms by (auto simp: sound_at_def)
  have "outcome_of r b tests j res'" if "(sResults s)[i := Some res] ! j = Some res'" "j < length (sResults s)" for j res'
    using list_update_cases [OF that(1)] o that(2) assms(1) by (auto simp: sound_at_def)
  then show ?thesis using assms(1) by (auto simp: sound_at_def)
qed

lemma sound_at_step:
  assumes "sound_at r b tests s" and "sstep r tests s ev s'" and "sCancelled s \<Longrightarrow> b"
  shows "sound_at r b tests s'"
  using assms(2)
proof cases
  case (complete i start res now)
  have "outcome_of r b tests i res" using complete(4) assms(3) unfolding outcome_of_def by blast
  then show ?thesis using assms(1) complete(2) by (auto simp: sound_at_def)
next
  case (record_result i res)
  then show ?thesis using sound_at_record [OF assms(1)] by simp
qed (use assms(1) in \<open>simp_all add: sound_at_def run_return_def\<close>)

lemma sound_step:
  assumes "sound r tests s" and "sstep r tests s ev s'"
  shows "sound r tests s'"
  using sound_at_step [OF _ assms(2)] sound_at_mono assms(1) cancelled_stays [OF assms(2)]
  unfolding sound_def by metis

lemma sound_start: "sound r tests (run_start r tests now)"
  by (simp add: sound_def sound_at_def run_start_def)

interpretation sound: run_invariant r tests "sound r tests" for r tests
  by (unfold_locales, rule sound_start, rule sound_step)

lemma collect_eq:
  "collect s = map (\<lambda>i. the (sResults s ! i)) (filter (\<lambda>i. sResults s ! i \<noteq> None) [0 ..< length (sResults s)])"
proof -
  have "concat (map (\<lambda>i. case sResults s ! i of None \<Rightarrow> [] | Some res \<Rightarrow> [res]) is) =
      map (\<lambda>i. the (sResults s ! i)) (filter (\<lambda>i. sResults s ! i \<noteq> None) is)" for "is"
    by (induction "is") (auto split: option.splits)
  moreover have "map (\<lambda>o'. case o' of None \<Rightarrow> [] | Some res \<Rightarrow> [res]) (sResults s) =
      map (\<lambda>i. case sResults s ! i of None \<Rightarrow> [] | Some res \<Rightarrow> [res]) [0 ..< length (sResults s)]"
    by (metis (no_types, lifting) map_map map_nth comp_apply map_cong)
  ultimately show ?thesis by (simp add: collect_def)
qed

text \<open>
  What a run returns: outcomes of tests at increasing positions, and of all the tests unless it was
  cancelled.
\<close>

definition returns_for :: "runner \<Rightarrow> bool \<Rightarrow> body gotest list \<Rightarrow> body run_result list \<Rightarrow> bool" where
  "returns_for r b tests out \<longleftrightarrow> (\<exists>is. sorted_wrt (<) is \<and> set is \<subseteq> {..<length tests} \<and>
     list_all2 (outcome_of r b tests) is out \<and> (b \<or> is = [0 ..< length tests]))"

lemma returns_for_mono: "returns_for r b tests out \<Longrightarrow> (b \<Longrightarrow> b') \<Longrightarrow> returns_for r b' tests out"
  unfolding returns_for_def using outcome_of_mono list_all2_mono [of "outcome_of r b tests" _ out "outcome_of r b' tests"]
  by blast

definition returned_ok :: "runner \<Rightarrow> body gotest list \<Rightarrow> body sched \<Rightarrow> bool" where
  "returned_ok r tests s \<longleftrightarrow> booked tests s \<and> sound r tests s \<and> (sOut s = None \<longleftrightarrow> sPhase s \<noteq> Finished) \<and>
     (\<forall>out err. sOut s = Some (out, err) \<longrightarrow> returns_for r (sCancelled s) tests out)"

lemma collect_sound:
  assumes "sound r tests s"
  shows "list_all2 (outcome_of r (sCancelled s) tests)
    (filter (\<lambda>i. sResults s ! i \<noteq> None) [0 ..< length (sResults s)]) (collect s)"
  using assms
  by (auto simp: collect_eq list_all2_map2 sound_def sound_at_def intro!: list.rel_refl_strong)

lemma returned_ok_return:
  assumes "booked tests s" "sound r tests s" "phase_over s" "sPhase s = ParallelPhase \<or> sCancelled s"
  shows "returns_for r (sCancelled s) tests (collect s)"
  unfolding returns_for_def
proof (rule exI [of _ "filter (\<lambda>i. sResults s ! i \<noteq> None) [0 ..< length (sResults s)]"], intro conjI)
  have len: "length (sResults s) = length tests" using assms(1) by (simp add: booked_def)
  show "sCancelled s \<or> filter (\<lambda>i. sResults s ! i \<noteq> None) [0 ..< length (sResults s)] = [0 ..< length tests]"
  proof (cases "sCancelled s")
    case False
    then have "set (sObserved s) = {..<length tests}"
      using assms by (auto simp: booked_def places_def phase_over_def)
    then have "\<forall>i \<in> set [0 ..< length tests]. sResults s ! i \<noteq> None"
      using assms(1) by (auto simp: booked_def)
    then show ?thesis by (simp add: len filter_id_conv)
  qed simp
  show "sorted_wrt (<) (filter (\<lambda>i. sResults s ! i \<noteq> None) [0 ..< length (sResults s)])"
    by (rule sorted_wrt_filter) simp
  show "set (filter (\<lambda>i. sResults s ! i \<noteq> None) [0 ..< length (sResults s)]) \<subseteq> {..<length tests}"
    by (auto simp: len)
qed (rule collect_sound [OF assms(2)])

lemma sOut_step:
  assumes "sstep r tests s ev s'" and "sOut s' = Some (out, err)"
  shows "sOut s = Some (out, err) \<or>
    out = collect s \<and> phase_over s \<and> (sPhase s = ParallelPhase \<or> sCancelled s) \<and> sCancelAt s' = sCancelAt s"
  using assms(1) by cases (use assms(2) in \<open>simp_all add: run_return_def\<close>)

lemma sOut_iff_finished_step:
  assumes "sstep r tests s ev s'" and "sOut s = None \<longleftrightarrow> sPhase s \<noteq> Finished"
  shows "sOut s' = None \<longleftrightarrow> sPhase s' \<noteq> Finished"
  using assms(1) by cases (use assms(2) in \<open>simp_all add: run_return_def\<close>)

lemma returned_ok_step:
  assumes ok: "returned_ok r tests s" and st: "sstep r tests s ev s'"
  shows "returned_ok r tests s'"
proof -
  have bs: "booked tests s" "sound r tests s" using ok by (simp_all add: returned_ok_def)
  have "returns_for r (sCancelled s') tests out" if out: "sOut s' = Some (out, err)" for out err
    using sOut_step [OF st out]
  proof
    assume "sOut s = Some (out, err)"
    then have "returns_for r (sCancelled s) tests out" using ok unfolding returned_ok_def by blast
    then show ?thesis using cancelled_stays [OF st] by (rule returns_for_mono)
  next
    assume "out = collect s \<and> phase_over s \<and> (sPhase s = ParallelPhase \<or> sCancelled s) \<and> sCancelAt s' = sCancelAt s"
    then show ?thesis using returned_ok_return [OF bs] by simp
  qed
  moreover have "sOut s' = None \<longleftrightarrow> sPhase s' \<noteq> Finished"
    using sOut_iff_finished_step [OF st] ok by (simp add: returned_ok_def)
  ultimately show ?thesis
    using booked_step [OF bs(1) st] sound_step [OF bs(2) st] unfolding returned_ok_def by blast
qed

lemma returned_ok_start: "returned_ok r tests (run_start r tests now)"
  using booked_start [of tests r now] sound_start [of r tests now]
  by (simp add: returned_ok_def) (simp add: run_start_def)

interpretation returned_ok: run_invariant r tests "returned_ok r tests" for r tests
  by (unfold_locales, rule returned_ok_start, rule returned_ok_step)


subsection \<open>Breakdowns\<close>

definition err_ok :: "runner \<Rightarrow> run_error \<Rightarrow> bool \<Rightarrow> bool" where
  "err_ok r err cancelled \<longleftrightarrow> (case err of
       ErrAbandoned n \<Rightarrow> 0 < rMaxLeaked r \<and> rMaxLeaked r \<le> n
     | ErrStalled d \<Rightarrow> d = rStallTimeout r \<and> 0 < rStallTimeout r \<and> cancelled)"

definition errors_ok :: "runner \<Rightarrow> 'f sched \<Rightarrow> bool" where
  "errors_ok r s \<longleftrightarrow> (\<forall>err \<in> set_option (sErr s). err_ok r err (sCancelled s)) \<and>
     (\<forall>out err. sOut s = Some (out, Some err) \<longrightarrow> err_ok r err (sCancelled s))"

lemma err_ok_cancel: "err_ok r err c \<Longrightarrow> err_ok r err True"
  by (auto simp: err_ok_def split: run_error.splits)

lemma sErr_sched_fail: "sErr (sched_fail e s) = Some (case sErr s of None \<Rightarrow> e | Some e' \<Rightarrow> e')"
  by (simp add: sched_fail_def split: option.splits)

lemma sErr_finish_enter:
  "sErr (finish_enter r i res s) = sErr s \<or>
   (\<exists>n. sErr (finish_enter r i res s) = Some (ErrAbandoned n) \<and> 0 < rMaxLeaked r \<and> rMaxLeaked r \<le> n)"
  by (cases "sErr s") (simp_all add: finish_enter_def checkLeaked_def sched_fail_def Let_def)

lemma errors_ok_finish_enter:
  assumes "errors_ok r s"
  shows "errors_ok r (finish_enter r i res s)"
  using assms sErr_finish_enter [of r i res s] by (auto simp: errors_ok_def err_ok_def)

lemma errors_ok_step:
  assumes "errors_ok r s" and "sstep r tests s ev s'"
  shows "errors_ok r s'"
  using assms(2)
proof cases
  case interrupt
  then show ?thesis using assms(1) err_ok_cancel by (fastforce simp: errors_ok_def)
next
  case stall
  have "err_ok r (ErrStalled (rStallTimeout r)) True" using stall by (simp add: err_ok_def stalled_def)
  then show ?thesis using assms(1) err_ok_cancel stall(2)
    by (fastforce simp: errors_ok_def sErr_sched_fail split: option.splits)
next
  case complete
  then show ?thesis using errors_ok_finish_enter [OF assms(1)] by simp
qed (use assms(1) in \<open>auto simp: errors_ok_def run_return_def\<close>)

lemma errors_ok_start: "errors_ok r (run_start r tests now)"
  by (simp add: errors_ok_def run_start_def)

interpretation errors_ok: run_invariant r tests "errors_ok r" for r tests
  by (unfold_locales, rule errors_ok_start, rule errors_ok_step)

text \<open>
  \<open>Run\<close> returns an error only when the run broke down: either the limit on abandoned goroutines is
  set and was reached, or the stall timeout is set, expired, and cancelled the run.
\<close>

theorem run_error_cause:
  assumes "run_reaches r tests s" and "sOut s = Some (out, Some err)"
  shows "(\<exists>n. err = ErrAbandoned n \<and> 0 < rMaxLeaked r \<and> rMaxLeaked r \<le> n) \<or>
    (err = ErrStalled (rStallTimeout r) \<and> 0 < rStallTimeout r \<and> sCancelled s)"
  using errors_ok.reached [OF assms(1)] assms(2)
  by (auto simp: errors_ok_def err_ok_def split: run_error.splits)

section \<open>A run of two tests\<close>

definition leak_runner :: runner where
  "leak_runner = \<lparr>rParallel = 1, rTimeout = 100, rCleanupTimeout = 50, rStallTimeout = 0,
     rMaxLeaked = 1, rWatchdogGrace = 10\<rparr>"

definition late_result :: "body run_result" where
  "late_result = \<lparr>resTest = example_case, resStatus = StatusTimeout, resDuration = 100,
     resOutput = ''x'', resSkip = []\<rparr>"

lemma late_yields: "yields leak_runner None example_case start late_result (start + 100)"
  unfolding yields_def
  by (rule exI [of _ example_env], rule exI [of _ "\<lambda>_ _ _. True"], rule exI [of _ "example_body [(start, OpError ''x'')] (start + 100) FailNow"],
      rule exI [of _ "example_cleanup 0"])
    (simp add: run_example_defs run_code_defs leak_runner_def late_result_def)

definition example_tests :: "body gotest list" where
  "example_tests = [example_case, example_case]"

lemma example_partition: "run_partition example_tests = ([], [0, 1])"
  by (simp add: run_partition_def example_tests_def example_case_def test_marker_def)

lemma example_run:
  "\<exists>evs s. ssteps leak_runner example_tests (run_start leak_runner example_tests 0) evs s \<and>
    set evs \<inter> {EvInterrupt, EvStall} = {} \<and> sCancelAt s = None \<and>
    sOut s = Some ([late_result, late_result], Some (ErrAbandoned 1))"
proof -
  let ?s0 = "run_start leak_runner example_tests 0"
  let ?s1 = "enter_phase ParallelPhase (snd (run_partition example_tests)) (rParallel leak_runner) ?s0"
  let ?s2 = "?s1\<lparr>sTodo := [1], sRunning := sRunning ?s1 @ [(0, sNow ?s1)]\<rparr>"
  let ?s3 = "?s2\<lparr>sNow := sNow ?s2 + 100\<rparr>"
  let ?s4 = "finish_enter leak_runner 0 late_result ?s3"
  let ?s5 = "finish_record 0 late_result ?s4"
  let ?s6 = "?s5\<lparr>sTodo := [], sRunning := sRunning ?s5 @ [(1, sNow ?s5)]\<rparr>"
  let ?s7 = "?s6\<lparr>sNow := sNow ?s6 + 100\<rparr>"
  let ?s8 = "finish_enter leak_runner 1 late_result ?s7"
  let ?s9 = "finish_record 1 late_result ?s8"
  note start [simp] = run_start_def example_partition leak_runner_def in_flight_def phase_over_def
    phase_workers_def
  have e0: "sstep leak_runner example_tests ?s0 EvPhase ?s1" by (rule serial_done) simp_all
  have e1: "sstep leak_runner example_tests ?s1 EvFeed ?s2" by (rule feed) simp_all
  have e2: "sstep leak_runner example_tests ?s2 EvTick ?s3" by (rule tick) simp
  have e3: "sstep leak_runner example_tests ?s3 (EvComplete 0) ?s4"
    by (rule complete [where start = 0 and now = 100])
      (use late_yields [of 0] in \<open>simp_all add: example_tests_def del: leak_runner_def\<close>)
  have e4: "sstep leak_runner example_tests ?s4 (EvRecord 0) ?s5" by (rule record_result) simp
  have e5: "sstep leak_runner example_tests ?s5 EvFeed ?s6" by (rule feed) simp_all
  have e6: "sstep leak_runner example_tests ?s6 EvTick ?s7" by (rule tick) simp
  have e7: "sstep leak_runner example_tests ?s7 (EvComplete 1) ?s8"
    by (rule complete [where start = 100 and now = 200])
      (use late_yields [of 100] in \<open>simp_all add: example_tests_def del: leak_runner_def\<close>)
  have e8: "sstep leak_runner example_tests ?s8 (EvRecord 1) ?s9" by (rule record_result) simp
  have e9: "sstep leak_runner example_tests ?s9 EvPhase (run_return ?s9)"
    by (rule parallel_done) simp_all
  have steps: "ssteps leak_runner example_tests ?s0 [EvPhase, EvFeed, EvTick, EvComplete 0, EvRecord 0,
      EvFeed, EvTick, EvComplete 1, EvRecord 1, EvPhase] (run_return ?s9)"
    by (rule ssteps_step [OF e0 ssteps_step [OF e1 ssteps_step [OF e2 ssteps_step [OF e3 ssteps_step [OF e4
      ssteps_step [OF e5 ssteps_step [OF e6 ssteps_step [OF e7 ssteps_step [OF e8 ssteps_step [OF e9
      ssteps_refl]]]]]]]]]])
  have "sOut (run_return ?s9) = Some ([late_result, late_result], Some (ErrAbandoned 1))"
    by (simp add: run_return_def collect_def finish_enter_def checkLeaked_def sched_fail_def
        late_result_def finish_record_def enter_phase_def example_tests_def)
  moreover have "sCancelAt (run_return ?s9) = None" by (simp add: run_return_def)
  ultimately show ?thesis using steps by (intro exI conjI) (assumption | simp)+
qed

lemma start_reached: "run_reaches r tests (run_start r tests 0)"
  unfolding run_reaches_def by (blast intro: ssteps_refl)

lemma example_reached:
  "\<exists>s. run_reaches leak_runner example_tests s \<and> sCancelAt s = None \<and> sOut s = Some ([late_result, late_result], Some (ErrAbandoned 1))"
  using example_run unfolding run_reaches_def by blast

lemma interrupted_reached:
  "run_reaches leak_runner example_tests (cancel_run (run_start leak_runner example_tests 0))"
  unfolding run_reaches_def by (blast intro: ssteps.intros interrupt)

theorem run_isolation_witness:
  "\<exists>s. run_reaches leak_runner example_tests s \<and> sOut s \<noteq> None \<and> length (in_flight s) \<le> 1"
proof -
  obtain s where s: "run_reaches leak_runner example_tests s" "sOut s \<noteq> None"
    using example_reached by auto
  with run_isolation [OF s(1)] show ?thesis by (auto simp: leak_runner_def)
qed



theorem run_error_cause_witness: "0 < rMaxLeaked leak_runner \<and> rMaxLeaked leak_runner \<le> 1"
proof -
  obtain s where s: "run_reaches leak_runner example_tests s"
      "sOut s = Some ([late_result, late_result], Some (ErrAbandoned 1))"
    using example_reached by auto
  show ?thesis using run_error_cause [OF s] by simp
qed

end
