(* ===== verification/RunEnds.thy ===== *)
theory RunEnds
  imports Scheduler
begin

text \<open>
  How a run ends (\<open>Run\<close>, \<open>runIndexes\<close> and \<open>watchStall\<close> of \<open>internal/harness/run.go\<close>): by itself when the
  tests end, at once when it is cancelled, by its watchdog when nothing finishes, and what its caller
  gets from it.
\<close>

section \<open>Termination\<close>

definition weight :: "'f gotest list \<Rightarrow> 'f sched \<Rightarrow> nat" where
  "weight tests s = 3 * length (sTodo s) + 2 * length (sRunning s) + length (sFinishing s) +
     (case sPhase s of SerialPhase \<Rightarrow> 3 * length (snd (run_partition tests)) + 2
      | ParallelPhase \<Rightarrow> 1 | Finished \<Rightarrow> 0)"

definition own_step :: "sevent \<Rightarrow> bool" where
  "own_step ev \<longleftrightarrow> ev \<notin> {EvTick, EvInterrupt, EvWatch, EvStall}"

lemma weight_step:
  assumes "sstep r tests s ev s'"
  shows "weight tests s' + (if own_step ev then 1 else 0) \<le> weight tests s"
  using assms
proof cases
  case (complete i start res now)
  then show ?thesis using length_filter_neq [OF complete(3)]
    by (simp add: weight_def own_step_def)
next
  case (record_result i res)
  then show ?thesis using length_filter_neq [OF record_result(3)]
    by (simp add: weight_def own_step_def)
next
  case break_feed
  then show ?thesis by (cases "sTodo s") (simp_all add: weight_def own_step_def)
qed (simp_all add: weight_def own_step_def run_return_def phase_over_def)

lemma weight_steps:
  "ssteps r tests s evs s' \<Longrightarrow> weight tests s' + length (filter own_step evs) \<le> weight tests s"
proof (induction rule: ssteps.induct)
  case (ssteps_step s ev s' evs s'')
  then show ?case using weight_step [OF ssteps_step.hyps(1)] by (simp split: if_splits)
qed simp

lemma partition_length:
  "length (fst (run_partition tests)) + length (snd (run_partition tests)) = length tests"
  using sum_length_filter_compl [of "\<lambda>i. test_marker (tests ! i) MarkerSerial" "[0 ..< length tests]"]
  by (simp add: run_partition_eq)

text \<open>
  A run of \<open>n\<close> tests makes at most \<open>3 n + 2\<close> steps of its own (handing out, finishing and recording
  each test, and returning from the two phases), whatever the clock, interrupts and the stall
  watchdog do in between.
\<close>

theorem run_steps_bounded:
  assumes "ssteps r tests (run_start r tests now) evs s"
  shows "length (filter own_step evs) \<le> 3 * length tests + 2"
proof -
  have "weight tests (run_start r tests now) = 3 * length tests + 2"
    using partition_length [of tests] by (simp add: weight_def run_start_def)
  then show ?thesis using weight_steps [OF assms] by simp
qed

definition fed :: "'f sched \<Rightarrow> bool" where
  "fed s \<longleftrightarrow> (sTodo s \<noteq> [] \<longrightarrow> 0 < sWorkers s)"

lemma phase_workers_pos: "idx \<noteq> [] \<Longrightarrow> 0 < phase_workers w idx"
  by (simp add: phase_workers_def Let_def)

lemma fed_start: "fed (run_start r tests now)"
  by (simp add: fed_def run_start_def phase_workers_pos)

lemma fed_step:
  assumes "fed s" and "sstep r tests s ev s'"
  shows "fed s'"
  using assms(2) by cases (use assms(1) in \<open>auto simp: fed_def run_return_def phase_workers_pos\<close>)

interpretation fed: run_invariant r tests fed for r tests
  by (unfold_locales, rule fed_start, rule fed_step)

text \<open>Every body can do something, whenever it is started; to hang is to do something.\<close>

definition startable :: "body gotest list \<Rightarrow> bool" where
  "startable tests \<longleftrightarrow>
     (\<forall>t \<in> set tests. \<exists>f. tFn t = Some f \<and> (\<forall>start. \<exists>e cexec. f start e cexec))"

lemma yields_ex:
  assumes "rTimeout r > 0" and "rCleanupTimeout r > 0" and "startable tests" and "i < length tests"
  shows "\<exists>res now. yields r cancel (tests ! i) start res now"
proof -
  let ?env = "example_env\<lparr>evCancel := cancel\<rparr>" and ?t = "tests ! i"
  obtain f e cexec where f: "tFn ?t = Some f" "f start e cexec"
    using assms(3,4) unfolding startable_def by (meson nth_mem)
  obtain b where b: "runBody r ?env (tName ?t) start e = Some b"
    using runBody_returns [OF assms(1)] by blast
  obtain ops now where "runCleanups r ?env (tName ?t) cexec (boOps b) (boTime b) = Some (ops, now)"
    using runCleanups_returns [OF assms(2)] by blast
  with b have "\<exists>res now. runOne r ?env ?t start e cexec = Some (res, now)"
    by (simp add: runOne_def Let_def)
  then obtain res now where "runOne r ?env ?t start e cexec = Some (res, now)" by blast
  with f show ?thesis
    unfolding yields_def by (intro exI [of _ res] exI [of _ now] exI [of _ ?env]) auto
qed

lemma run_progress:
  assumes "rTimeout r > 0" and "rCleanupTimeout r > 0" and "fed s" and "sPhase s \<noteq> Finished"
    and "booked tests s" and "startable tests"
  shows "\<exists>evs s'. ssteps r tests s evs s' \<and> weight tests s' < weight tests s \<and>
    set evs \<inter> {EvInterrupt, EvStall} = {}"
proof -
  have one: ?thesis if "sstep r tests s ev s'" "own_step ev" for ev s'
    using weight_step [OF that(1)] that
    by (intro exI [of _ "[ev]"] exI [of _ s']) (auto simp: own_step_def intro: ssteps.intros)
  show ?thesis
  proof (cases "sFinishing s")
    case (Cons f fs)
    obtain i res where "f = (i, res)" by (cases f)
    then show ?thesis using Cons one [OF record_result, of i res] by (simp add: own_step_def)
  next
    case Nil
    show ?thesis
    proof (cases "sRunning s")
      case (Cons f fs)
      obtain i start where f: "f = (i, start)" by (cases f)
      then have "i < length tests" using assms(5) Cons by (auto simp: booked_def places_def in_flight_def)
      then obtain res now where y: "yields r (sCancelAt s) (tests ! i) start res now"
        using yields_ex assms(1,2,6) by blast
      let ?t = "s\<lparr>sNow := sNow s + max 0 (now - sNow s)\<rparr>"
      have "sstep r tests s EvTick ?t" by (rule tick) simp
      moreover have c: "sstep r tests ?t (EvComplete i) (finish_enter r i res ?t)"
        by (rule complete [where start = start and now = now]) (use y f Cons in simp_all)
      moreover have "weight tests (finish_enter r i res ?t) < weight tests s"
        using weight_step [OF c] by (simp add: weight_def own_step_def)
      ultimately show ?thesis
        by (intro exI [of _ "[EvTick, EvComplete i]"] exI [of _ "finish_enter r i res ?t"])
          (auto intro: ssteps.intros)
    next
      case Nil': Nil
      then have idle: "in_flight s = []" using Nil by (simp add: in_flight_def)
      show ?thesis
      proof (cases "sTodo s")
        case (Cons i todo)
        then show ?thesis using assms(3,4) idle one [OF feed, of i todo]
          by (simp add: fed_def own_step_def)
      next
        case Nil
        then have over: "phase_over s" using idle by (simp add: phase_over_def)
        show ?thesis
        proof (cases "sPhase s")
          case SerialPhase
          then show ?thesis using over one [OF serial_done] one [OF serial_aborted]
            by (cases "sCancelled s") (auto simp: own_step_def)
        next
          case ParallelPhase
          then show ?thesis using over one [OF parallel_done] by (auto simp: own_step_def)
        qed (use assms(4) in simp)
      qed
    qed
  qed
qed

text \<open>
  C25. With both deadlines set, and whatever the bodies do, a run can always be brought to its end without an interrupt and without
  the stall watchdog: from every state it can reach, time and its own steps lead to a state in which
  \<open>Run\<close> has returned.
\<close>

theorem run_finishes:
  assumes "run_reaches r tests s" and "rTimeout r > 0" and "rCleanupTimeout r > 0" and "startable tests"
  shows "\<exists>evs s'. ssteps r tests s evs s' \<and> sOut s' \<noteq> None \<and> set evs \<inter> {EvInterrupt, EvStall} = {}"
proof -
  have "fed s \<and> returned_ok r tests s"
    using fed.reached returned_ok.reached assms(1) by blast
  then show ?thesis
  proof (induction "weight tests s" arbitrary: s rule: less_induct)
    case less
    show ?case
    proof (cases "sOut s")
      case None
      then have "sPhase s \<noteq> Finished" using less.prems by (simp add: returned_ok_def)
      then obtain evs s' where e: "ssteps r tests s evs s'" "weight tests s' < weight tests s"
          "set evs \<inter> {EvInterrupt, EvStall} = {}"
        using run_progress assms(2,3,4) less.prems by (metis returned_ok_def)
      have "fed s' \<and> returned_ok r tests s'"
        using fed.along [OF e(1)] returned_ok.along [OF e(1)] less.prems by blast
      then obtain evs' s'' where "ssteps r tests s' evs' s''" "sOut s'' \<noteq> None"
          "set evs' \<inter> {EvInterrupt, EvStall} = {}"
        using less.hyps [OF e(2)] by blast
      then show ?thesis using ssteps_append [OF e(1)] e(3)
        by (metis Int_Un_distrib2 Un_empty set_append)
    next
      case (Some o')
      then show ?thesis by (intro exI [of _ "[]"] exI [of _ s]) (simp add: ssteps_refl)
    qed
  qed
qed

text \<open>
  Once cancelled, by an interrupt or by the stall watchdog, a run returns without waiting for any
  test, even when every worker is stuck for ever: leaving the feed loop and returning from the phase
  is all it takes.
\<close>

theorem run_cancel_returns:
  assumes "run_reaches r tests s" and "sCancelled s" and "sOut s = None"
  shows "\<exists>evs s'. ssteps r tests s evs s' \<and> sOut s' \<noteq> None \<and> set evs \<subseteq> {EvBreak, EvPhase}"
proof -
  have np: "sPhase s \<noteq> Finished"
    using returned_ok.reached [OF assms(1)] assms(3) by (simp add: returned_ok_def)
  have ret: "sstep r tests t EvPhase (run_return t)"
    if "sPhase t \<noteq> Finished" "sCancelled t" "sTodo t = []" for t
    using that by (cases "sPhase t") (auto intro: serial_aborted parallel_done simp: phase_over_def)
  show ?thesis
  proof (cases "sTodo s = []")
    case True
    with ret [of s] np assms(2) have "ssteps r tests s [EvPhase] (run_return s)"
      by (auto intro: ssteps.intros)
    then show ?thesis by (intro exI [of _ "[EvPhase]"] exI [of _ "run_return s"]) (simp add: run_return_def)
  next
    case False
    let ?t = "s\<lparr>sTodo := []\<rparr>"
    have "ssteps r tests s [EvBreak, EvPhase] (run_return ?t)"
      using break_feed [OF np assms(2) False] ret [of ?t] np assms(2) by (auto intro: ssteps.intros)
    then show ?thesis
      by (intro exI [of _ "[EvBreak, EvPhase]"] exI [of _ "run_return ?t"]) (simp add: run_return_def)
  qed
qed

lemma cancelled_by:
  "ssteps r tests s evs s' \<Longrightarrow> set evs \<inter> {EvInterrupt, EvStall} = {} \<Longrightarrow> sCancelAt s' = sCancelAt s"
proof (induction rule: ssteps.induct)
  case (ssteps_step s ev s' evs s'')
  from ssteps_step.hyps(1) have "sCancelAt s' = sCancelAt s"
    by cases (use ssteps_step.prems in \<open>auto simp: run_return_def\<close>)
  then show ?case using ssteps_step by auto
qed simp

text \<open>Without an interrupt only the watchdog cancels a run, and it leaves an error.\<close>

lemma cancelled_with_error:
  "ssteps r tests s evs s' \<Longrightarrow> EvInterrupt \<notin> set evs \<Longrightarrow> (sCancelled s \<longrightarrow> sErr s \<noteq> None) \<Longrightarrow>
     sCancelled s' \<longrightarrow> sErr s' \<noteq> None"
proof (induction rule: ssteps.induct)
  case (ssteps_step s ev s' evs s'')
  have keep: "sErr (finish_enter r i res s) \<noteq> None" if "sErr s \<noteq> None" for i res
    using that by (auto simp: finish_enter_def checkLeaked_def sched_fail_def Let_def split: option.splits)
  from ssteps_step.hyps(1) have "sCancelled s' \<longrightarrow> sErr s' \<noteq> None"
    by cases (use ssteps_step.prems keep in \<open>auto simp: run_return_def sErr_sched_fail\<close>)
  then show ?case using ssteps_step by auto
qed simp

text \<open>
  A complete run as its caller sees it: the steps up to the return, the results and the error it
  returns, the results it reported in the order it did, and whether an interrupt arrived.
\<close>

record 'f run_outcome =
  roResults :: "'f run_result list"
  roErr :: "run_error option"
  roObserved :: "'f run_result list"
  roInterrupted :: bool
  roWall :: int

definition observed :: "'f sched \<Rightarrow> 'f run_result list" where
  "observed s = map (\<lambda>i. the (sResults s ! i)) (sObserved s)"

definition runs_to :: "runner \<Rightarrow> body gotest list \<Rightarrow> body run_outcome \<Rightarrow> bool" where
  "runs_to r tests out \<longleftrightarrow> (\<exists>now evs s s'. ssteps r tests (run_start r tests now) evs s \<and> sOut s = None \<and>
     sstep r tests s EvPhase s' \<and> sOut s' = Some (roResults out, roErr out) \<and> roObserved out = observed s' \<and>
     (EvInterrupt \<in> set evs \<longrightarrow> roInterrupted out))"

lemma runs_to_complete:
  assumes "runs_to r tests out" and "roErr out = None" and "\<not> roInterrupted out"
  shows "list_all2 (outcome_of r False tests) [0 ..< length tests] (roResults out)"
proof -
  obtain now evs s s' where st: "ssteps r tests (run_start r tests now) evs s" "sstep r tests s EvPhase s'" "sOut s = None"
      "sOut s' = Some (roResults out, roErr out)" "EvInterrupt \<notin> set evs"
    using assms unfolding runs_to_def by blast
  have "ssteps r tests s [EvPhase] s'" using st(2) by (auto intro: ssteps.intros)
  then have all: "ssteps r tests (run_start r tests now) (evs @ [EvPhase]) s'" by (rule ssteps_append [OF st(1)])
  have "sErr s' = None" using st(2,3,4) assms(2) by cases (auto simp: run_return_def enter_phase_def dest: sym)
  then have "\<not> sCancelled s'"
    using cancelled_with_error [OF all] st(5) by (auto simp: run_start_def enter_phase_def)
  moreover have "returned_ok r tests s'" using returned_ok.along [OF all returned_ok.start] .
  ultimately show ?thesis using st(4) by (auto simp: returned_ok_def returns_for_def)
qed


section \<open>The stall watchdog\<close>

text \<open>
  The watchdog is on time when no instant passes a tick of its timer before it has looked. The states
  reached that way:
\<close>

definition on_time :: "'f sched \<Rightarrow> bool" where
  "on_time s \<longleftrightarrow> (\<forall>\<tau> \<in> set_option (sWatch s). sNow s \<le> \<tau>)"

inductive watched :: "runner \<Rightarrow> body gotest list \<Rightarrow> body sched \<Rightarrow> bool" for r tests where
  watched_start: "watched r tests (run_start r tests now)"
| watched_step: "watched r tests s \<Longrightarrow> sstep r tests s ev s' \<Longrightarrow> on_time s' \<Longrightarrow> watched r tests s'"

definition watching :: "runner \<Rightarrow> 'f sched \<Rightarrow> bool" where
  "watching r s \<longleftrightarrow> sProgress s \<le> sNow s \<and> on_time s \<and>
     (sPhase s \<noteq> Finished \<and> \<not> sCancelled s \<longrightarrow>
       (\<exists>\<tau>. sWatch s = Some \<tau> \<and> \<tau> - watch_interval r - sProgress s < rStallTimeout r))"

lemma watch_interval_pos: "rStallTimeout r > 0 \<Longrightarrow> watch_interval r > 0"
  by (simp add: watch_interval_def)

lemma watching_start:
  assumes "rStallTimeout r > 0"
  shows "watching r (run_start r tests now)"
  using assms watch_interval_pos [OF assms] by (simp add: watching_def on_time_def run_start_def)

lemma watching_step:
  assumes "watching r s" and "sstep r tests s ev s'" and "on_time s'" and "rStallTimeout r > 0"
  shows "watching r s'"
  using assms(2)
proof cases
  case (watch \<tau>)
  then have "sNow s = \<tau>" using assms(1) by (simp add: watching_def on_time_def)
  moreover have "sNow s - sProgress s < rStallTimeout r" using watch(5) assms(4) by (simp add: stalled_def)
  ultimately have "next_tick r \<tau> (sNow s) - watch_interval r - sProgress s < rStallTimeout r"
    by (simp add: next_tick_def)
  then show ?thesis using assms(1,3) watch(2) by (simp add: watching_def)
next
  case (complete i start res now)
  then show ?thesis using assms(1,3) by (force simp: watching_def)
qed (use assms(1,3) in \<open>auto simp: watching_def run_return_def\<close>)

lemma watched_watching: "watched r tests s \<Longrightarrow> rStallTimeout r > 0 \<Longrightarrow> watching r s"
  by (induction rule: watched.induct) (auto intro: watching_start watching_step)

text \<open>
  C26. The stall watchdog acts neither late nor early: a run whose tests have made no progress for
  \<open>StallTimeout\<close> and one interval of its timer (30 seconds, or \<open>StallTimeout\<close> if that is less) has been
  cancelled or is over, and it is never cancelled by it sooner than after \<open>StallTimeout\<close>.
\<close>

theorem stall_watchdog_bounds:
  assumes "watched r tests s" and "rStallTimeout r > 0"
  shows "(sPhase s \<noteq> Finished \<and> \<not> sCancelled s \<longrightarrow>
      sNow s - sProgress s < rStallTimeout r + min (30 * 1000000000) (rStallTimeout r)) \<and>
    (sstep r tests s EvStall s' \<longrightarrow> rStallTimeout r \<le> sNow s - sProgress s \<and> sCancelled s')"
proof
  show "sPhase s \<noteq> Finished \<and> \<not> sCancelled s \<longrightarrow>
      sNow s - sProgress s < rStallTimeout r + min (30 * 1000000000) (rStallTimeout r)"
    using watched_watching [OF assms] by (auto simp: watching_def on_time_def watch_interval_def)
  show "sstep r tests s EvStall s' \<longrightarrow> rStallTimeout r \<le> sNow s - sProgress s \<and> sCancelled s'"
  proof
    assume "sstep r tests s EvStall s'"
    then show "rStallTimeout r \<le> sNow s - sProgress s \<and> sCancelled s'"
      by cases (auto simp: stalled_def)
  qed
qed

section \<open>Examples\<close>

theorem run_steps_bounded_witness:
  "\<exists>evs s. ssteps leak_runner example_tests (run_start leak_runner example_tests 0) evs s \<and> sOut s \<noteq> None \<and>
    length (filter own_step evs) \<le> 8"
proof -
  obtain evs s where e: "ssteps leak_runner example_tests (run_start leak_runner example_tests 0) evs s" "sOut s \<noteq> None"
    using example_run by auto
  with run_steps_bounded [OF e(1)] show ?thesis by (auto simp: example_tests_def)
qed

theorem run_finishes_witness:
  "\<exists>evs s'. ssteps leak_runner example_tests (run_start leak_runner example_tests 0) evs s' \<and> sOut s' \<noteq> None"
  using run_finishes [OF start_reached, of leak_runner example_tests]
  by (auto simp: leak_runner_def example_tests_def example_case_def startable_def)

theorem run_cancel_returns_witness:
  "\<exists>evs s'. ssteps leak_runner example_tests (cancel_run (run_start leak_runner example_tests 0)) evs s' \<and>
    sOut s' \<noteq> None \<and> set evs \<subseteq> {EvBreak, EvPhase}"
  using run_cancel_returns [OF interrupted_reached] by (simp add: run_start_def cancel_run_def)


text \<open>A run whose only test hangs, with a watchdog that looks every ten nanoseconds.\<close>

definition stall_runner :: runner where
  "stall_runner = \<lparr>rParallel = 1, rTimeout = 0, rCleanupTimeout = 50, rStallTimeout = 10,
     rMaxLeaked = 0, rWatchdogGrace = 0\<rparr>"

theorem stall_watchdog_bounds_witness:
  "\<exists>s s'. watched stall_runner example_tests s \<and> sstep stall_runner example_tests s EvStall s' \<and>
    10 \<le> sNow s - sProgress s \<and> sCancelled s'"
proof -
  let ?s0 = "run_start stall_runner example_tests 0"
  let ?s1 = "?s0\<lparr>sNow := sNow ?s0 + 10\<rparr>"
  have e: "sstep stall_runner example_tests ?s0 EvTick ?s1" by (rule tick) simp
  have w: "watched stall_runner example_tests ?s1"
    by (rule watched_step [OF watched_start e])
      (simp add: on_time_def run_start_def stall_runner_def watch_interval_def)
  have f: "sstep stall_runner example_tests ?s1 EvStall (stall_abort stall_runner ?s1)"
    by (rule stall [where \<tau> = 10]) (simp_all add: run_start_def stall_runner_def watch_interval_def stalled_def)
  have "0 < rStallTimeout stall_runner" by (simp add: stall_runner_def)
  from stall_watchdog_bounds [OF w this] f have "10 \<le> sNow ?s1 - sProgress ?s1 \<and> sCancelled (stall_abort stall_runner ?s1)"
    by (simp add: stall_runner_def)
  with w f show ?thesis by blast
qed

end
