(* ===== verification/Utf8.thy ===== *)
theory Utf8
  imports Prelude
begin

text \<open>
  UTF-8 as the standard library reads it: the width of the rune at the front of a string
  (\<open>utf8.DecodeRuneInString\<close>), how many runes a string has (\<open>utf8.RuneCountInString\<close>, which \<open>fmt\<close> pads
  by), and the bytes of a code point up to U+FFFF. A byte that starts no rune counts as one.
\<close>

definition cont_byte :: "char \<Rightarrow> bool" where
  "cont_byte c \<longleftrightarrow> in_byte_range 128 191 c"

text \<open>The range of the second byte, by the first.\<close>

definition second_ok :: "char \<Rightarrow> char \<Rightarrow> bool" where
  "second_ok a b \<longleftrightarrow>
     (if byte a = 224 then in_byte_range 160 191 b
      else if byte a = 237 then in_byte_range 128 159 b
      else if byte a = 240 then in_byte_range 144 191 b
      else if byte a = 244 then in_byte_range 128 143 b
      else cont_byte b)"

text \<open>The width of the first rune, 0 when the bytes there are not UTF-8.\<close>

fun utf8_width :: "gostring \<Rightarrow> nat" where
  "utf8_width [] = 0"
| "utf8_width (a # s) =
     (if byte a < 128 then 1
      else if in_byte_range 194 223 a then
        (case s of b # _ \<Rightarrow> if second_ok a b then 2 else 0 | _ \<Rightarrow> 0)
      else if in_byte_range 224 239 a then
        (case s of b # c # _ \<Rightarrow> if second_ok a b \<and> cont_byte c then 3 else 0 | _ \<Rightarrow> 0)
      else if in_byte_range 240 244 a then
        (case s of b # c # d # _ \<Rightarrow> if second_ok a b \<and> cont_byte c \<and> cont_byte d then 4 else 0 | _ \<Rightarrow> 0)
      else 0)"

lemma utf8_width_le: "utf8_width s \<le> length s"
  by (cases s) (auto split: list.splits)

lemma utf8_width_append: "0 < utf8_width s \<Longrightarrow> utf8_width (s @ t) = utf8_width s"
  by (cases s) (auto split: list.splits if_splits)

lemma utf8_width_take: "utf8_width (take (utf8_width s) s) = utf8_width s"
  by (cases s) (auto split: list.splits if_splits simp: numeral_2_eq_2 numeral_3_eq_3 numeral_eq_Suc)

text \<open>Every byte of a rune of more than one byte is beyond ASCII.\<close>

lemma second_ok_beyond: "second_ok a b \<Longrightarrow> 128 \<le> byte b"
  by (auto simp: second_ok_def cont_byte_def in_byte_range_def split: if_splits)

lemma utf8_wide_bytes:
  assumes w: "1 < utf8_width s" and c: "c \<in> set (take (utf8_width s) s)"
  shows "128 \<le> byte c"
proof (cases s)
  case (Cons a t)
  have a: "128 \<le> byte a" using w Cons by (auto split: if_splits)
  have "c = a \<or> c \<in> set (take (utf8_width s - 1) t)"
    using c w Cons by (cases "utf8_width s") auto
  moreover have "128 \<le> byte c" if "c \<in> set (take (utf8_width s - 1) t)"
  proof -
    consider "utf8_width s = 2" | "utf8_width s = 3" | "utf8_width s = 4"
      using w Cons by (auto split: if_splits list.splits)
    then show ?thesis
    proof cases
      case 1
      then obtain b u where "t = b # u" "second_ok a b" using Cons by (auto split: if_splits list.splits)
      then show ?thesis using that 1 second_ok_beyond by auto
    next
      case 2
      then obtain b d u where "t = b # d # u" "second_ok a b" "cont_byte d"
        using Cons by (auto split: if_splits list.splits)
      then show ?thesis using that 2 second_ok_beyond by (auto simp: cont_byte_def in_byte_range_def)
    next
      case 3
      then obtain b d e u where "t = b # d # e # u" "second_ok a b" "cont_byte d" "cont_byte e"
        using Cons by (auto split: if_splits list.splits)
      then show ?thesis using that 3 second_ok_beyond
        by (auto simp: cont_byte_def in_byte_range_def take_Cons' split: if_splits)
    qed
  qed
  ultimately show ?thesis using a by blast
qed (use c in simp)

function rune_count :: "gostring \<Rightarrow> nat" where
  "rune_count s = (if s = [] then 0 else Suc (rune_count (drop (max 1 (utf8_width s)) s)))"
  by pat_completeness auto

termination by (relation "measure length") auto

declare rune_count.simps [simp del]

lemma rune_count_Nil [simp]: "rune_count [] = 0"
  by (subst rune_count.simps) simp

lemma rune_count_le: "rune_count s \<le> length s"
proof (induction s rule: rune_count.induct)
  case (1 s)
  show ?case
  proof (cases "s = []")
    case False
    have "rune_count s = Suc (rune_count (drop (max 1 (utf8_width s)) s))"
      using False by (subst rune_count.simps) simp
    moreover have "rune_count (drop (max 1 (utf8_width s)) s) \<le> length s - max 1 (utf8_width s)"
      using "1.IH" [OF False] by simp
    moreover have "max 1 (utf8_width s) \<le> length s"
      using utf8_width_le [of s] False by (cases s) auto
    ultimately show ?thesis by linarith
  qed simp
qed

definition ascii :: "gostring \<Rightarrow> bool" where
  "ascii s \<longleftrightarrow> (\<forall>c \<in> set s. byte c < 128)"

lemma rune_count_ascii: "ascii s \<Longrightarrow> rune_count s = length s"
proof (induction s)
  case (Cons c s)
  have "utf8_width (c # s) = 1" using Cons.prems by (simp add: ascii_def)
  then have "rune_count (c # s) = Suc (rune_count s)" by (subst rune_count.simps) simp
  with Cons show ?case by (simp add: ascii_def)
qed simp

text \<open>A string is valid when its runes cover it.\<close>

function valid_utf8 :: "gostring \<Rightarrow> bool" where
  "valid_utf8 s =
     (if s = [] then True else if utf8_width s = 0 then False else valid_utf8 (drop (utf8_width s) s))"
  by pat_completeness auto

termination by (relation "measure length") auto

declare valid_utf8.simps [simp del]

lemma valid_utf8_Nil [simp]: "valid_utf8 []"
  by (subst valid_utf8.simps) simp

lemma valid_utf8_ascii: "ascii s \<Longrightarrow> valid_utf8 s"
proof (induction s)
  case (Cons c s)
  have "utf8_width (c # s) = 1" using Cons.prems by (simp add: ascii_def)
  then show ?case using Cons by (subst valid_utf8.simps) (simp add: ascii_def)
qed simp

text \<open>\<open>utf8.AppendRune\<close> for a code point of at most four hex digits.\<close>

definition utf8_encode :: "nat \<Rightarrow> gostring" where
  "utf8_encode u =
     (if u < 128 then [char_of u]
      else if u < 2048 then [char_of (192 + u div 64), char_of (128 + u mod 64)]
      else [char_of (224 + u div 4096), char_of (128 + u div 64 mod 64), char_of (128 + u mod 64)])"

definition quote_mark :: char where "quote_mark = CHR 0x22"

end
