(* ===== verification/Url.thy ===== *)
theory Url
  imports Prelude
begin

text \<open>
  The escaping of \<open>net/url\<close> that requests go through: path and query escaping and their inverse,
  \<open>EscapedPath\<close>, \<open>ParseQuery\<close>, \<open>Values.Encode\<close> and \<open>RequestURI\<close>.
\<close>

section \<open>Percent escapes\<close>

datatype url_mode = PathMode | QueryMode

definition is_unreserved :: "char \<Rightarrow> bool" where
  "is_unreserved c \<longleftrightarrow> is_lower_ascii c \<or> is_upper_ascii c \<or> is_digit_ascii c \<or> c \<in> set ''-_.~''"

definition should_escape :: "url_mode \<Rightarrow> char \<Rightarrow> bool" where
  "should_escape m c =
     (if is_unreserved c then False
      else if c \<in> set ''$&+,/:;=?@'' then (case m of PathMode \<Rightarrow> c = CHR ''?'' | QueryMode \<Rightarrow> True)
      else True)"

definition hex_char :: "nat \<Rightarrow> char" where
  "hex_char n = (if n < 10 then char_of (48 + n) else char_of (55 + n))"

definition hex_value :: "char \<Rightarrow> nat option" where
  "hex_value c =
     (if in_byte_range 48 57 c then Some (byte c - 48)
      else if in_byte_range 97 102 c then Some (byte c - 87)
      else if in_byte_range 65 70 c then Some (byte c - 55)
      else None)"

definition escape_byte :: "url_mode \<Rightarrow> char \<Rightarrow> gostring" where
  "escape_byte m c =
     (if m = QueryMode \<and> c = CHR '' '' then ''+''
      else if should_escape m c then [CHR ''%'', hex_char (byte c div 16), hex_char (byte c mod 16)]
      else [c])"

definition url_escape :: "url_mode \<Rightarrow> gostring \<Rightarrow> gostring" where
  "url_escape m s = concat (map (escape_byte m) s)"

fun url_unescape :: "url_mode \<Rightarrow> gostring \<Rightarrow> gostring option" where
  "url_unescape m [] = Some []"
| "url_unescape m (c # s) =
     (if c = CHR ''%'' then
        (case s of
           a # b # s' \<Rightarrow> (case (hex_value a, hex_value b) of
               (Some x, Some y) \<Rightarrow> map_option ((#) (char_of (16 * x + y))) (url_unescape m s')
             | _ \<Rightarrow> None)
         | _ \<Rightarrow> None)
      else map_option ((#) (if m = QueryMode \<and> c = CHR ''+'' then CHR '' '' else c)) (url_unescape m s))"

declare byte_less [simp]

lemma char_of_byte [simp]: "char_of (byte c) = c"
  by (simp add: byte_def)

lemma hex_value_char: "n < 16 \<Longrightarrow> hex_value (hex_char n) = Some n"
  by (simp add: hex_value_def hex_char_def in_byte_range_def byte_def)

lemma plus_escaped: "should_escape QueryMode (CHR ''+'')"
  by (simp add: should_escape_def is_unreserved_def is_lower_ascii_def is_upper_ascii_def
      is_digit_ascii_def in_byte_range_def byte_def)

lemma percent_escaped: "should_escape m (CHR ''%'')"
  by (simp add: should_escape_def is_unreserved_def is_lower_ascii_def is_upper_ascii_def
      is_digit_ascii_def in_byte_range_def byte_def)

lemma url_unescape_byte:
  "url_unescape m (escape_byte m c @ s) = map_option ((#) c) (url_unescape m s)"
proof -
  consider "m = QueryMode" "c = CHR '' ''" | "\<not> (m = QueryMode \<and> c = CHR '' '')" "should_escape m c"
    | "\<not> (m = QueryMode \<and> c = CHR '' '')" "\<not> should_escape m c" by blast
  then show ?thesis
  proof cases
    case 2
    have "16 * (byte c div 16) + byte c mod 16 = byte c" by simp
    moreover have "byte c div 16 < 16" "byte c mod 16 < 16"
      using byte_less [of c] by (simp_all add: less_mult_imp_div_less)
    ultimately show ?thesis using 2 by (simp add: escape_byte_def hex_value_char)
  next
    case 3
    then have "c \<noteq> CHR ''%''" "\<not> (m = QueryMode \<and> c = CHR ''+'')"
      using percent_escaped plus_escaped by metis+
    then show ?thesis using 3 by (auto simp: escape_byte_def)
  qed (simp add: escape_byte_def)
qed

lemma url_unescape_escape [simp]: "url_unescape m (url_escape m s) = Some s"
  by (induction s) (simp_all add: url_escape_def url_unescape_byte)

lemma escape_byte_safe:
  assumes "d \<in> set (escape_byte QueryMode c)"
  shows "d \<notin> {CHR ''&'', CHR ''='', CHR '';''}"
proof -
  have hex: "hex_char n \<notin> {CHR ''&'', CHR ''='', CHR '';''}" if "n < 16" for n
    using hex_value_char [OF that] by (auto simp: hex_value_def in_byte_range_def byte_def)
  have lt: "byte c div 16 < 16" "byte c mod 16 < 16"
    using byte_less [of c] by (simp_all add: less_mult_imp_div_less)
  have "should_escape QueryMode x" if "x \<in> {CHR ''&'', CHR ''='', CHR '';''}" for x
    using that by (auto simp: should_escape_def is_unreserved_def is_lower_ascii_def is_upper_ascii_def
      is_digit_ascii_def in_byte_range_def byte_def)
  then show ?thesis using assms hex [OF lt(1)] hex [OF lt(2)]
    by (auto simp: escape_byte_def split: if_splits)
qed

lemma url_escape_safe:
  "d \<in> set (url_escape QueryMode s) \<Longrightarrow> d \<notin> {CHR ''&'', CHR ''='', CHR '';''}"
  using escape_byte_safe unfolding url_escape_def by fastforce

section \<open>Paths\<close>

definition valid_encoded :: "gostring \<Rightarrow> bool" where
  "valid_encoded s \<longleftrightarrow>
     list_all (\<lambda>c. c \<in> set ''!$&()*+,;=:@[]%'' \<or> byte c = 39 \<or> \<not> should_escape PathMode c) s"

definition escaped_path :: "gostring \<Rightarrow> gostring \<Rightarrow> gostring" where
  "escaped_path path raw =
     (if raw \<noteq> [] \<and> valid_encoded raw \<and> url_unescape PathMode raw = Some path then raw
      else if path = ''*'' then ''*''
      else url_escape PathMode path)"

definition request_uri :: "gostring \<Rightarrow> gostring \<Rightarrow> gostring \<Rightarrow> gostring" where
  "request_uri path raw query =
     (let p = escaped_path path raw in
      (if p = [] then ''/'' else p) @ (if query = [] then [] else ''?'' @ query))"

text \<open>Whichever branch is taken, unescaping the result gives the path.\<close>

lemma url_unescape_star: "url_unescape PathMode ''*'' = Some ''*''"
  by simp

lemma unescape_escaped_path: "url_unescape PathMode (escaped_path path raw) = Some path"
  by (auto simp: escaped_path_def url_unescape_star)

section \<open>Queries\<close>

text \<open>
  A query is a map from keys to lists of values; its entries are kept in the order of their first
  use, which no result depends on.
\<close>

type_synonym query = "(gostring \<times> gostring list) list"

fun query_add :: "query \<Rightarrow> gostring \<Rightarrow> gostring \<Rightarrow> query" where
  "query_add [] k v = [(k, [v])]"
| "query_add ((k', vs) # q) k v = (if k' = k then (k', vs @ [v]) # q else (k', vs) # query_add q k v)"

definition query_set :: "gostring \<Rightarrow> gostring \<Rightarrow> query \<Rightarrow> query" where
  "query_set k v q = (k, [v]) # filter (\<lambda>(k', _). k' \<noteq> k) q"

fun split_on :: "char \<Rightarrow> gostring \<Rightarrow> gostring list" where
  "split_on d [] = [[]]"
| "split_on d (c # s) = (if c = d then [] # split_on d s
     else (case split_on d s of [] \<Rightarrow> [[c]] | x # xs \<Rightarrow> (c # x) # xs))"

definition parse_pair :: "query \<Rightarrow> gostring \<Rightarrow> query" where
  "parse_pair q pair =
     (if pair = [] \<or> CHR '';'' \<in> set pair then q
      else let key = takeWhile (\<lambda>c. c \<noteq> CHR ''='') pair;
               value = drop (length key + 1) pair in
        (case (url_unescape QueryMode key, url_unescape QueryMode value) of
           (Some k, Some v) \<Rightarrow> query_add q k v
         | _ \<Rightarrow> q))"

definition parse_query :: "gostring \<Rightarrow> query" where
  "parse_query s = foldl parse_pair [] (split_on (CHR ''&'') s)"

definition encode_pair :: "gostring \<Rightarrow> gostring \<Rightarrow> gostring" where
  "encode_pair k v = url_escape QueryMode k @ ''='' @ url_escape QueryMode v"

definition encode_query :: "query \<Rightarrow> gostring" where
  "encode_query q = str_join
     (concat (map (\<lambda>(k, vs). map (encode_pair k) vs) (sort_key fst q))) ''&''"

definition query_values :: "query \<Rightarrow> gostring \<Rightarrow> gostring list" where
  "query_values q k = (case map_of q k of None \<Rightarrow> [] | Some vs \<Rightarrow> vs)"

subsection \<open>Parsing an encoded query\<close>

lemma split_on_plain: "d \<notin> set x \<Longrightarrow> split_on d x = [x]"
  by (induction x) auto

lemma split_on_append: "d \<notin> set x \<Longrightarrow> split_on d (x @ d # s) = x # split_on d s"
  by (induction x) auto

lemma split_on_join: "xs \<noteq> [] \<Longrightarrow> \<forall>x \<in> set xs. d \<notin> set x \<Longrightarrow> split_on d (str_join xs [d]) = xs"
proof (induction xs)
  case (Cons x xs)
  then show ?case by (cases xs) (simp_all add: split_on_plain split_on_append)
qed simp

lemma encode_pair_safe: "CHR ''&'' \<notin> set (encode_pair k v)" "CHR '';'' \<notin> set (encode_pair k v)"
  using url_escape_safe by (auto simp: encode_pair_def)

lemma parse_encode_pair: "parse_pair q (encode_pair k v) = query_add q k v"
proof -
  have "CHR ''='' \<notin> set (url_escape QueryMode k)" using url_escape_safe by blast
  then have key: "takeWhile (\<lambda>c. c \<noteq> CHR ''='') (encode_pair k v) = url_escape QueryMode k"
    by (simp add: encode_pair_def takeWhile_tail) (metis takeWhile_eq_all_conv)
  have val: "drop (length (url_escape QueryMode k) + 1) (encode_pair k v) = url_escape QueryMode v"
    by (simp add: encode_pair_def)
  have "encode_pair k v \<noteq> []" by (simp add: encode_pair_def)
  then show ?thesis using encode_pair_safe(2) [of k v]
    by (simp add: parse_pair_def key val Let_def del: One_nat_def add_Suc_right)
qed

lemma query_values_add:
  "query_values (query_add q k v) k' = query_values q k' @ (if k' = k then [v] else [])"
  by (induction q k v rule: query_add.induct) (auto simp: query_values_def)

lemma query_values_foldl:
  "query_values (foldl (\<lambda>q (k, v). query_add q k v) q ps) k =
     query_values q k @ map snd (filter (\<lambda>(k', _). k' = k) ps)"
  by (induction ps arbitrary: q) (auto simp: query_values_add)

definition query_pairs :: "query \<Rightarrow> (gostring \<times> gostring) list" where
  "query_pairs q = concat (map (\<lambda>(k, vs). map (Pair k) vs) q)"

lemma query_pairs_values:
  "distinct (map fst q) \<Longrightarrow> map snd (filter (\<lambda>(k', _). k' = k) (query_pairs q)) = query_values q k"
proof (induction q)
  case (Cons e q)
  obtain k' vs where e: "e = (k', vs)" by (cases e)
  have "filter (\<lambda>(k'', _). k'' = k) (map (Pair k') vs) = (if k' = k then map (Pair k') vs else [])"
    by (induction vs) auto
  moreover have "k \<notin> fst ` set q \<Longrightarrow> query_values q k = []"
    by (simp add: query_values_def map_of_eq_None_iff [THEN iffD2] split: option.splits)
  ultimately show ?case using Cons
    by (auto simp: e query_pairs_def query_values_def comp_def)
qed (simp add: query_pairs_def query_values_def)

lemma parse_query_pairs:
  "query_values (parse_query (str_join (map (\<lambda>(k, v). encode_pair k v) ps) ''&'')) k =
     map snd (filter (\<lambda>(k', _). k' = k) ps)"
proof (cases "ps = []")
  case True
  then show ?thesis by (simp add: parse_query_def parse_pair_def query_values_def)
next
  case False
  have fold: "foldl parse_pair q (map (\<lambda>(k, v). encode_pair k v) ps) =
      foldl (\<lambda>q (k, v). query_add q k v) q ps" for q
    by (induction ps arbitrary: q) (auto simp: parse_encode_pair)
  have "split_on (CHR ''&'') (str_join (map (\<lambda>(k, v). encode_pair k v) ps) ''&'') =
      map (\<lambda>(k, v). encode_pair k v) ps"
    using False encode_pair_safe(1) by (intro split_on_join) auto
  then show ?thesis
    by (simp add: parse_query_def fold query_values_foldl) (simp add: query_values_def)
qed

lemma parse_encode_query:
  assumes "distinct (map fst q)"
  shows "query_values (parse_query (encode_query q)) k = query_values q k"
proof -
  let ?q = "sort_key fst q"
  have d: "distinct (map fst ?q)"
    using assms by (metis mset_eq_imp_distinct_iff mset_map mset_sort)
  have "concat (map (\<lambda>(k, vs). map (encode_pair k) vs) q') =
      map (\<lambda>(k, v). encode_pair k v) (query_pairs q')" for q' :: query
    unfolding query_pairs_def by (induction q') auto
  then have "query_values (parse_query (encode_query q)) k = query_values ?q k"
    using parse_query_pairs [of "query_pairs ?q" k] query_pairs_values [OF d]
    by (simp add: encode_query_def)
  also have "\<dots> = query_values q k"
    using map_of_mset_eq [OF d, of q] by (simp add: query_values_def)
  finally show ?thesis .
qed

lemma distinct_query_set: "distinct (map fst q) \<Longrightarrow> distinct (map fst (query_set k v q))"
  by (induction q) (auto simp: query_set_def)

lemma query_values_set: "query_values (query_set k v q) k' = (if k' = k then [v] else query_values q k')"
  by (induction q) (auto simp: query_set_def query_values_def)

lemma distinct_query_add: "distinct (map fst q) \<Longrightarrow> distinct (map fst (query_add q k v))"
proof (induction q k v rule: query_add.induct)
  case (2 k' vs q k v)
  have "fst ` set (query_add q k v) = insert k (fst ` set q)"
    by (induction q k v rule: query_add.induct) auto
  with 2 show ?case by auto
qed simp

lemma distinct_parse_query: "distinct (map fst (parse_query s))"
proof -
  have step: "distinct (map fst q) \<Longrightarrow> distinct (map fst (parse_pair q x))" for q x
    by (simp add: parse_pair_def Let_def distinct_query_add split: option.splits)
  have "distinct (map fst q) \<Longrightarrow> distinct (map fst (foldl parse_pair q xs))" for q xs
    by (induction xs arbitrary: q) (simp_all add: step)
  then show ?thesis by (simp add: parse_query_def)
qed

end
