(* ===== verification/Json.thy ===== *)
theory Json
  imports Utf8 Url
begin

text \<open>
  The part of \<open>encoding/json\<close> the JSON report uses: an object whose values are strings, numbers and
  arrays of strings, with the encoder's default escaping (HTML characters, control characters, the
  line separators U+2028 and U+2029, the replacement character for bytes that are not UTF-8), and a
  reader of such objects against which what is written is judged.
\<close>

section \<open>Writing\<close>

definition backslash :: char where "backslash = CHR 0x5C"

definition lower_hex :: "nat \<Rightarrow> char" where
  "lower_hex n = (if n < 10 then char_of (48 + n) else char_of (87 + n))"

definition json_ascii :: "char \<Rightarrow> gostring" where
  "json_ascii c =
     (if c = quote_mark \<or> c = backslash then [backslash, c]
      else if byte c = 8 then [backslash, CHR ''b'']
      else if byte c = 12 then [backslash, CHR ''f'']
      else if byte c = 10 then [backslash, CHR ''n'']
      else if byte c = 13 then [backslash, CHR ''r'']
      else if byte c = 9 then [backslash, CHR ''t'']
      else if byte c < 32 \<or> c \<in> {CHR ''<'', CHR ''>'', CHR ''&''}
        then backslash # ''u00'' @ [lower_hex (byte c div 16), lower_hex (byte c mod 16)]
      else [c])"

definition json_rune :: "gostring \<Rightarrow> gostring" where
  "json_rune r =
     (if r = [CHR 0xE2, CHR 0x80, CHR 0xA8] then backslash # ''u2028''
      else if r = [CHR 0xE2, CHR 0x80, CHR 0xA9] then backslash # ''u2029''
      else r)"

function json_chars :: "gostring \<Rightarrow> gostring" where
  "json_chars s =
     (if s = [] then []
      else if utf8_width s = 0 then backslash # ''ufffd'' @ json_chars (tl s)
      else if utf8_width s = 1 then json_ascii (hd s) @ json_chars (tl s)
      else json_rune (take (utf8_width s) s) @ json_chars (drop (utf8_width s) s))"
  by pat_completeness auto

termination by (relation "measure length") auto

declare json_chars.simps [simp del]

definition json_quote :: "gostring \<Rightarrow> gostring" where
  "json_quote s = quote_mark # json_chars s @ [quote_mark]"

datatype jvalue = JStr gostring | JNum gostring | JArr "gostring list"

fun json_value :: "jvalue \<Rightarrow> gostring" where
  "json_value (JStr s) = json_quote s"
| "json_value (JNum t) = t"
| "json_value (JArr xs) = ''['' @ str_join (map json_quote xs) '','' @ '']''"

definition json_field :: "gostring \<times> jvalue \<Rightarrow> gostring" where
  "json_field f = json_quote (fst f) @ '':'' @ json_value (snd f)"

definition json_object :: "(gostring \<times> jvalue) list \<Rightarrow> gostring" where
  "json_object fs = ''{'' @ str_join (map json_field fs) '','' @ ''}''"

section \<open>Reading\<close>

definition simple_escape :: "char \<Rightarrow> char option" where
  "simple_escape e =
     (if e = quote_mark \<or> e = backslash \<or> e = CHR ''/'' then Some e
      else if e = CHR ''b'' then Some (CHR 0x08)
      else if e = CHR ''f'' then Some (CHR 0x0C)
      else if e = CHR ''n'' then Some (CHR 0x0A)
      else if e = CHR ''r'' then Some (CHR 0x0D)
      else if e = CHR ''t'' then Some (CHR 0x09)
      else None)"

definition hex4 :: "gostring \<Rightarrow> nat option" where
  "hex4 t = (case map hex_value (take 4 t) of
       [Some a, Some b, Some c, Some d] \<Rightarrow> Some (((a * 16 + b) * 16 + c) * 16 + d)
     | _ \<Rightarrow> None)"

definition prepend :: "gostring \<Rightarrow> (gostring \<times> gostring) option \<Rightarrow> (gostring \<times> gostring) option" where
  "prepend x r = map_option (\<lambda>(y, rest). (x @ y, rest)) r"

text \<open>The rest of a string literal after its opening quote, and what follows it.\<close>

function unquote :: "gostring \<Rightarrow> (gostring \<times> gostring) option" where
  "unquote [] = None"
| "unquote (c # s) =
     (if c = quote_mark then Some ([], s)
      else if byte c < 32 then None
      else if c \<noteq> backslash then prepend [c] (unquote s)
      else if s = [] then None
      else if hd s = CHR ''u'' then
        (case hex4 (tl s) of None \<Rightarrow> None | Some u \<Rightarrow> prepend (utf8_encode u) (unquote (drop 5 s)))
      else (case simple_escape (hd s) of None \<Rightarrow> None | Some d \<Rightarrow> prepend [d] (unquote (tl s))))"
  by pat_completeness auto

termination by (relation "measure length") auto

declare unquote.simps [simp del]

lemma prepend_Some: "prepend x r = Some (y, rest) \<longleftrightarrow> (\<exists>z. r = Some (z, rest) \<and> y = x @ z)"
  by (auto simp: prepend_def)

lemma unquote_length: "unquote s = Some (x, rest) \<Longrightarrow> length rest < length s"
proof (induction s arbitrary: x rest rule: unquote.induct)
  case (2 c s)
  consider (quote) "c = quote_mark"
    | (plain) "c \<noteq> quote_mark" "\<not> byte c < 32" "c \<noteq> backslash"
    | (hex) u where "c \<noteq> quote_mark" "\<not> byte c < 32" "\<not> c \<noteq> backslash" "s \<noteq> []"
        "hd s = CHR ''u''" "hex4 (tl s) = Some u"
    | (simple) d where "c \<noteq> quote_mark" "\<not> byte c < 32" "\<not> c \<noteq> backslash" "s \<noteq> []"
        "hd s \<noteq> CHR ''u''" "simple_escape (hd s) = Some d"
    using "2.prems" by (auto simp: unquote.simps split: if_splits option.splits)
  then show ?case
  proof cases
    case quote
    then show ?thesis using "2.prems" by (simp add: unquote.simps)
  next
    case plain
    then obtain z where "unquote s = Some (z, rest)" using "2.prems" by (auto simp: unquote.simps prepend_Some)
    then show ?thesis using "2.IH"(1) [OF plain] by fastforce
  next
    case hex
    then obtain z where "unquote (drop 5 s) = Some (z, rest)"
      using "2.prems" by (auto simp: unquote.simps prepend_Some)
    then show ?thesis using "2.IH"(2) [OF hex] by fastforce
  next
    case simple
    then obtain z where "unquote (tl s) = Some (z, rest)"
      using "2.prems" by (auto simp: unquote.simps prepend_Some)
    then show ?thesis using "2.IH"(3) [OF simple] by fastforce
  qed
qed (simp add: unquote.simps)

function read_strings :: "gostring \<Rightarrow> (gostring list \<times> gostring) option" where
  "read_strings s =
     (if s = [] \<or> hd s \<noteq> quote_mark then None
      else (case unquote (tl s) of
          None \<Rightarrow> None
        | Some (x, t) \<Rightarrow>
            if t = [] then None
            else if hd t = CHR '','' then map_option (\<lambda>(xs, u). (x # xs, u)) (read_strings (tl t))
            else if hd t = CHR '']'' then Some ([x], tl t)
            else None))"
  by pat_completeness auto

termination
proof (relation "measure length")
  fix s x t y u
  assume "\<not> (s = [] \<or> hd s \<noteq> quote_mark)" and "unquote (tl s) = Some y" "(x, u) = y"
  then show "(tl u, s) \<in> measure length" using unquote_length [of "tl s" x u] by auto
qed simp

declare read_strings.simps [simp del]

definition number_char :: "char \<Rightarrow> bool" where
  "number_char c \<longleftrightarrow> is_digit_ascii c \<or> c \<in> {CHR ''+'', CHR ''-'', CHR ''.'', CHR ''e'', CHR ''E''}"

definition read_value :: "gostring \<Rightarrow> (jvalue \<times> gostring) option" where
  "read_value s =
     (if s = [] then None
      else if hd s = quote_mark then map_option (\<lambda>(x, t). (JStr x, t)) (unquote (tl s))
      else if hd s = CHR ''['' then map_option (\<lambda>(xs, t). (JArr xs, t)) (read_strings (tl s))
      else if number_char (hd s) then Some (JNum (takeWhile number_char s), dropWhile number_char s)
      else None)"

lemma read_strings_length: "read_strings s = Some (xs, t) \<Longrightarrow> length t \<le> length s"
proof (induction s arbitrary: xs t rule: read_strings.induct)
  case (1 s)
  show ?case
    using "1.prems" "1.IH"
    by (subst (asm) read_strings.simps)
      (auto split: if_splits option.splits dest!: unquote_length; fastforce)
qed

lemma read_value_length: "read_value s = Some (v, t) \<Longrightarrow> length t \<le> length s"
  by (auto simp: read_value_def length_dropWhile_le split: if_splits
      dest!: unquote_length read_strings_length)

function read_fields :: "gostring \<Rightarrow> ((gostring \<times> jvalue) list \<times> gostring) option" where
  "read_fields s =
     (if s = [] \<or> hd s \<noteq> quote_mark then None
      else (case unquote (tl s) of
          None \<Rightarrow> None
        | Some (k, t) \<Rightarrow>
            if t = [] \<or> hd t \<noteq> CHR '':'' then None
            else (case read_value (tl t) of
                None \<Rightarrow> None
              | Some (v, u) \<Rightarrow>
                  if u = [] then None
                  else if hd u = CHR '','' then map_option (\<lambda>(fs, w). ((k, v) # fs, w)) (read_fields (tl u))
                  else if hd u = CHR ''}'' then Some ([(k, v)], tl u)
                  else None)))"
  by pat_completeness auto

termination
proof (relation "measure length")
  fix s x k t y v u
  assume "\<not> (s = [] \<or> hd s \<noteq> quote_mark)" and "unquote (tl s) = Some x" "(k, t) = x"
    and "\<not> (t = [] \<or> hd t \<noteq> CHR '':'')" and "read_value (tl t) = Some y" "(v, u) = y"
  then have "length t < length s" "length u \<le> length t"
    using unquote_length [of "tl s" k t] read_value_length [of "tl t" v u] by auto
  then show "(tl u, s) \<in> measure length" by auto
qed simp

declare read_fields.simps [simp del]

definition read_object :: "gostring \<Rightarrow> (gostring \<times> jvalue) list option" where
  "read_object s = (case s of
       c # t \<Rightarrow> (case read_fields t of
           Some (fs, u) \<Rightarrow> if c = CHR ''{'' \<and> u = [] then Some fs else None
         | None \<Rightarrow> None)
     | [] \<Rightarrow> None)"

section \<open>Reading what was written\<close>

text \<open>What a string is after the encoder: bytes that are not UTF-8 become U+FFFD.\<close>

function utf8_clean :: "gostring \<Rightarrow> gostring" where
  "utf8_clean s =
     (if s = [] then []
      else if utf8_width s = 0 then utf8_encode 65533 @ utf8_clean (tl s)
      else take (utf8_width s) s @ utf8_clean (drop (utf8_width s) s))"
  by pat_completeness auto

termination by (relation "measure length") auto

declare utf8_clean.simps [simp del]

lemma utf8_clean_valid: "valid_utf8 s \<Longrightarrow> utf8_clean s = s"
proof (induction s rule: utf8_clean.induct)
  case (1 s)
  show ?case
  proof (cases "s = []")
    case False
    with "1.prems" have w: "utf8_width s \<noteq> 0" and v: "valid_utf8 (drop (utf8_width s) s)"
      by (auto simp: valid_utf8.simps [of s] split: if_splits)
    show ?thesis using "1.IH"(2) [OF False w v] False w by (subst utf8_clean.simps) simp
  qed (subst utf8_clean.simps, simp)
qed

lemma hex_value_lower: "k < 16 \<Longrightarrow> hex_value (lower_hex k) = Some k"
  by (auto simp: hex_value_def lower_hex_def in_byte_range_def byte_def)

lemma unquote_escape:
  assumes "hex4 ds = Some u" and "length ds = 4"
  shows "unquote (backslash # CHR ''u'' # ds @ t) = prepend (utf8_encode u) (unquote t)"
proof -
  have "hex4 (ds @ t) = hex4 ds" using assms(2) by (simp add: hex4_def)
  then show ?thesis
    using assms by (simp add: unquote.simps backslash_def quote_mark_def byte_def numeral_eq_Suc)
qed

lemma unquote_simple:
  assumes "simple_escape e = Some d" and "e \<noteq> CHR ''u''"
  shows "unquote (backslash # e # t) = prepend [d] (unquote t)"
  using assms by (simp add: unquote.simps backslash_def quote_mark_def byte_def)

lemma unquote_plain:
  assumes "c \<noteq> quote_mark" "c \<noteq> backslash" "32 \<le> byte c"
  shows "unquote (c # t) = prepend [c] (unquote t)"
  using assms by (simp add: unquote.simps)

lemma unquote_ascii:
  assumes "byte c < 128"
  shows "unquote (json_ascii c @ t) = prepend [c] (unquote t)"
proof -
  have c: "c = char_of (byte c)" by (simp add: byte_def)
  consider "c = quote_mark \<or> c = backslash" | "byte c \<in> {8, 12, 10, 13, 9}"
    | (hex) "c \<noteq> quote_mark" "c \<noteq> backslash" "byte c \<notin> {8, 12, 10, 13, 9}"
        "byte c < 32 \<or> c \<in> {CHR ''<'', CHR ''>'', CHR ''&''}"
    | (plain) "c \<noteq> quote_mark" "c \<noteq> backslash" "\<not> byte c < 32" "c \<notin> {CHR ''<'', CHR ''>'', CHR ''&''}"
    by linarith
  then show ?thesis
  proof cases
    case 1
    then have "json_ascii c = [backslash, c]" by (simp add: json_ascii_def)
    then show ?thesis using 1 unquote_simple [of c c t]
      by (auto simp: simple_escape_def quote_mark_def backslash_def)
  next
    case 2
    then have "byte c \<in> byte ` {CHR 0x08, CHR 0x0C, CHR 0x0A, CHR 0x0D, CHR 0x09}" by (simp add: byte_def)
    then have "c \<in> {CHR 0x08, CHR 0x0C, CHR 0x0A, CHR 0x0D, CHR 0x09}" by (metis byte_inj imageE)
    then have "\<exists>e. json_ascii c = [backslash, e] \<and> simple_escape e = Some c \<and> e \<noteq> CHR ''u''"
      by (elim insertE) (simp_all add: json_ascii_def simple_escape_def quote_mark_def backslash_def byte_def)
    then show ?thesis using unquote_simple by auto
  next
    case hex
    have "hex_value (CHR ''0'') = Some 0" by (simp add: hex_value_def in_byte_range_def byte_def)
    then have "hex4 [CHR ''0'', CHR ''0'', lower_hex (byte c div 16), lower_hex (byte c mod 16)] = Some (byte c)"
      using assms by (simp add: hex4_def hex_value_lower)
    moreover have "utf8_encode (byte c) = [c]" using assms c by (simp add: utf8_encode_def)
    moreover have "json_ascii c = backslash # CHR ''u'' #
        [CHR ''0'', CHR ''0'', lower_hex (byte c div 16), lower_hex (byte c mod 16)]"
      using hex by (simp add: json_ascii_def)
    ultimately show ?thesis
      using unquote_escape [of "[CHR ''0'', CHR ''0'', lower_hex (byte c div 16), lower_hex (byte c mod 16)]" "byte c" t]
      by simp
  next
    case plain
    then have "json_ascii c = [c]" by (auto simp: json_ascii_def)
    then show ?thesis using unquote_plain [of c t] plain by simp
  qed
qed

lemma prepend_prepend [simp]: "prepend x (prepend y r) = prepend (x @ y) r"
  by (cases r) (auto simp: prepend_def)

lemma unquote_bytes: "\<forall>c \<in> set r. 128 \<le> byte c \<Longrightarrow> unquote (r @ t) = prepend r (unquote t)"
proof (induction r)
  case (Cons c r)
  then have "byte c \<noteq> byte quote_mark" "byte c \<noteq> byte backslash"
    by (auto simp: byte_def quote_mark_def backslash_def)
  then have "unquote (c # r @ t) = prepend [c] (unquote (r @ t))"
    using Cons.prems by (intro unquote_plain) auto
  then show ?case using Cons by simp
qed (cases "unquote t", simp_all add: prepend_def)

lemma unquote_rune:
  assumes "\<forall>c \<in> set r. 128 \<le> byte c"
  shows "unquote (json_rune r @ t) = prepend r (unquote t)"
proof -
  have ls: "utf8_encode 8232 = [CHR 0xE2, CHR 0x80, CHR 0xA8]" "utf8_encode 8233 = [CHR 0xE2, CHR 0x80, CHR 0xA9]"
    by (simp_all add: utf8_encode_def char_of_def bit_0)
  have h: "hex4 ''2028'' = Some 8232" "hex4 ''2029'' = Some 8233"
    by (simp_all add: hex4_def hex_value_def in_byte_range_def byte_def)
  show ?thesis
    using assms unquote_bytes [of r t] unquote_escape [OF h(1), of t] unquote_escape [OF h(2), of t]
    by (auto simp: json_rune_def ls)
qed

lemma unquote_chars: "unquote (json_chars s @ quote_mark # t) = Some (utf8_clean s, t)"
proof (induction s rule: json_chars.induct)
  case (1 s)
  consider (nil) "s = []" | (bad) "s \<noteq> []" "utf8_width s = 0" | (one) "s \<noteq> []" "utf8_width s \<noteq> 0" "utf8_width s = 1"
    | (wide) "s \<noteq> []" "utf8_width s \<noteq> 0" "utf8_width s \<noteq> 1" by blast
  then show ?case
  proof cases
    case nil
    then show ?thesis
      by (subst json_chars.simps, subst utf8_clean.simps) (simp add: unquote.simps)
  next
    case bad
    have h: "hex4 ''fffd'' = Some 65533"
      by (simp add: hex4_def hex_value_def in_byte_range_def byte_def)
    show ?thesis
      using "1.IH"(1) [OF bad] bad unquote_escape [OF h, of "json_chars (tl s) @ quote_mark # t"]
      by (subst json_chars.simps, subst utf8_clean.simps) (simp add: prepend_def)
  next
    case one
    then obtain c u where s: "s = c # u" by (cases s) auto
    have "byte c < 128"
      using one s by (auto split: if_splits list.splits)
    then show ?thesis
      using "1.IH"(2) [OF one] one s unquote_ascii [of c "json_chars u @ quote_mark # t"]
      by (subst json_chars.simps, subst utf8_clean.simps) (simp add: prepend_def)
  next
    case wide
    then have "\<forall>c \<in> set (take (utf8_width s) s). 128 \<le> byte c" using utf8_wide_bytes [of s] by auto
    from unquote_rune [OF this, of "json_chars (drop (utf8_width s) s) @ quote_mark # t"] show ?thesis
      using "1.IH"(3) [OF wide] wide
      by (subst json_chars.simps, subst utf8_clean.simps) (simp add: prepend_def)
  qed
qed

lemma unquote_quote: "unquote (tl (json_quote s) @ t) = Some (utf8_clean s, t)"
  by (simp add: json_quote_def unquote_chars)

lemma json_quote_nonempty [simp]: "json_quote s \<noteq> []" "hd (json_quote s @ t) = quote_mark"
  by (simp_all add: json_quote_def)

lemma read_strings_join:
  "xs \<noteq> [] \<Longrightarrow> read_strings (str_join (map json_quote xs) '','' @ '']'' @ t) = Some (map utf8_clean xs, t)"
proof (induction xs)
  case (Cons x xs)
  show ?case
  proof (cases xs)
    case Nil
    then show ?thesis by (subst read_strings.simps) (simp add: unquote_quote)
  next
    case (Cons y ys)
    then have "read_strings (str_join (map json_quote xs) '','' @ '']'' @ t) = Some (map utf8_clean xs, t)"
      using Cons.IH by simp
    then show ?thesis using Cons by (subst read_strings.simps) (simp add: unquote_quote)
  qed
qed simp

text \<open>What a value is after the encoder; an array must have an element, as \<open>omitempty\<close> sees to.\<close>

fun jvalue_clean :: "jvalue \<Rightarrow> jvalue" where
  "jvalue_clean (JStr s) = JStr (utf8_clean s)"
| "jvalue_clean (JNum t) = JNum t"
| "jvalue_clean (JArr xs) = JArr (map utf8_clean xs)"

fun jvalue_ok :: "jvalue \<Rightarrow> bool" where
  "jvalue_ok (JStr s) = True"
| "jvalue_ok (JNum t) = (t \<noteq> [] \<and> list_all number_char t)"
| "jvalue_ok (JArr xs) = (xs \<noteq> [])"

lemma not_number_char [simp]:
  "\<not> number_char (CHR '','')" "\<not> number_char (CHR ''}'')" "\<not> number_char quote_mark"
  "\<not> number_char (CHR ''['')" "quote_mark \<noteq> CHR ''[''" "CHR ''['' \<noteq> quote_mark"
  by (simp_all add: number_char_def is_digit_ascii_def in_byte_range_def byte_def quote_mark_def)

lemma read_value_json:
  assumes "jvalue_ok v" and "c \<in> {CHR '','', CHR ''}''}"
  shows "read_value (json_value v @ c # t) = Some (jvalue_clean v, c # t)"
proof (cases v)
  case (JStr s)
  then show ?thesis by (simp add: read_value_def unquote_quote)
next
  case (JNum n)
  then obtain d ds where n: "n = d # ds" "number_char d" "list_all number_char ds"
    using assms(1) by (cases n) auto
  have c: "\<not> number_char c" using assms(2) by auto
  have "takeWhile number_char (ds @ c # t) = ds" "dropWhile number_char (ds @ c # t) = c # t"
    using n(3) c by (simp_all add: list_all_iff takeWhile_append2 dropWhile_append2)
  moreover have "d \<noteq> quote_mark" "d \<noteq> CHR ''[''" using n(2) by auto
  ultimately show ?thesis using n JNum by (simp add: read_value_def)
next
  case (JArr xs)
  then show ?thesis
    using assms(1) read_strings_join [of xs "c # t"] by (simp add: read_value_def)
qed

lemma read_fields_json:
  "fs \<noteq> [] \<Longrightarrow> list_all (\<lambda>(k, v). jvalue_ok v) fs \<Longrightarrow>
     read_fields (str_join (map json_field fs) '','' @ ''}'' @ t) =
       Some (map (\<lambda>(k, v). (utf8_clean k, jvalue_clean v)) fs, t)"
proof (induction fs)
  case (Cons f fs)
  obtain k v where f: "f = (k, v)" by (cases f)
  have v: "jvalue_ok v" using Cons.prems f by simp
  show ?case
  proof (cases fs)
    case Nil
    then show ?thesis using f read_value_json [OF v, of "CHR ''}''" t]
      by (subst read_fields.simps) (simp add: json_field_def unquote_quote)
  next
    case (Cons g gs)
    then have "read_fields (str_join (map json_field fs) '','' @ ''}'' @ t) =
        Some (map (\<lambda>(k, v). (utf8_clean k, jvalue_clean v)) fs, t)"
      using Cons.IH Cons.prems by simp
    then show ?thesis
      using f Cons read_value_json [OF v, of "CHR '',''" "str_join (map json_field fs) '','' @ ''}'' @ t"]
      by (subst read_fields.simps) (simp add: json_field_def unquote_quote)
  qed
qed simp

lemma read_object_json:
  assumes "fs \<noteq> []" and "list_all (\<lambda>(k, v). jvalue_ok v) fs"
  shows "read_object (json_object fs) = Some (map (\<lambda>(k, v). (utf8_clean k, jvalue_clean v)) fs)"
  using read_fields_json [OF assms, of "[]"] by (simp add: read_object_def json_object_def)

section \<open>One line\<close>

definition no_newline :: "gostring \<Rightarrow> bool" where
  "no_newline s \<longleftrightarrow> CHR 0x0A \<notin> set s"

lemma no_newline_simps [simp]:
  "no_newline []" "no_newline (c # s) \<longleftrightarrow> c \<noteq> CHR 0x0A \<and> no_newline s"
  "no_newline (s @ t) \<longleftrightarrow> no_newline s \<and> no_newline t"
  by (auto simp: no_newline_def)

lemma no_newline_ascii: "no_newline (json_ascii c)"
proof -
  have "lower_hex k \<noteq> CHR 0x0A" if "k < 16" for k
    using hex_value_lower [OF that] by (auto simp: hex_value_def in_byte_range_def byte_def split: if_splits)
  moreover have "byte c div 16 < 16" using byte_less [of c] by (intro less_mult_imp_div_less) simp
  moreover have "byte (CHR 0x0A) = 10" by (simp add: byte_def)
  ultimately show ?thesis by (auto simp: json_ascii_def backslash_def quote_mark_def)
qed

lemma no_newline_rune: "\<forall>c \<in> set r. 128 \<le> byte c \<Longrightarrow> no_newline (json_rune r)"
  by (auto simp: json_rune_def no_newline_def backslash_def byte_def)

lemma no_newline_chars: "no_newline (json_chars s)"
proof (induction s rule: json_chars.induct)
  case (1 s)
  have "no_newline (json_rune (take (utf8_width s) s))" if "utf8_width s \<noteq> 0" "utf8_width s \<noteq> 1"
    using that utf8_wide_bytes [of s] by (intro no_newline_rune) auto
  with 1 show ?case
    by (subst json_chars.simps) (auto simp: no_newline_ascii backslash_def)
qed

lemma no_newline_quote [simp]: "no_newline (json_quote s)"
  by (simp add: json_quote_def no_newline_chars quote_mark_def)

lemma no_newline_join: "no_newline sep \<Longrightarrow> \<forall>x \<in> set xs. no_newline x \<Longrightarrow> no_newline (str_join xs sep)"
  by (auto simp: str_join_def no_newline_def split: list.splits)

lemma no_newline_value: "jvalue_ok v \<Longrightarrow> no_newline (json_value v)"
proof (cases v)
  case (JNum t)
  assume "jvalue_ok v"
  moreover have "\<not> number_char (CHR 0x0A)"
    by (simp add: number_char_def is_digit_ascii_def in_byte_range_def byte_def)
  ultimately show ?thesis using JNum by (auto simp: no_newline_def list_all_iff)
qed (auto intro!: no_newline_join)

lemma no_newline_object:
  assumes "list_all (\<lambda>(k, v). jvalue_ok v) fs"
  shows "no_newline (json_object fs)"
proof -
  have "no_newline (json_field f)" if "f \<in> set fs" for f
    using assms that by (auto simp: json_field_def list_all_iff no_newline_value)
  then show ?thesis by (simp add: json_object_def no_newline_join)
qed

end
