(* ===== verification/Xml.thy ===== *)
theory Xml
  imports Utf8
begin

text \<open>
  The part of \<open>encoding/xml\<close> the JUnit report uses: elements with attributes that hold either text or
  other elements, indented by two blanks, with the escaping of \<open>EscapeText\<close>, and a reader of such
  documents against which what is written is judged.
\<close>

section \<open>Writing\<close>

text \<open>An element: its name, its attributes, its text, its children. An element has text or children.\<close>

datatype xml = Elem gostring "(gostring \<times> gostring) list" gostring "xml list"

text \<open>U+FFFD stands in for a byte that is not UTF-8 and for a rune XML does not allow.\<close>

definition replacement :: gostring where
  "replacement = [CHR 0xEF, CHR 0xBF, CHR 0xBD]"

definition entities :: "(gostring \<times> char) list" where
  "entities = [(''#34'', CHR 0x22), (''#39'', CHR 0x27), (''amp'', CHR ''&''), (''lt'', CHR ''<''), (''gt'', CHR ''>''),
     (''#x9'', CHR 0x09), (''#xA'', CHR 0x0A), (''#xD'', CHR 0x0D)]"

definition entity_of :: "char \<Rightarrow> gostring option" where
  "entity_of c = map_of (map (\<lambda>(n, d). (d, n)) entities) c"

definition xml_ascii :: "char \<Rightarrow> gostring" where
  "xml_ascii c = (case entity_of c of
       Some n \<Rightarrow> CHR ''&'' # n @ '';''
     | None \<Rightarrow> if byte c < 32 then replacement else [c])"

definition xml_rune :: "gostring \<Rightarrow> gostring" where
  "xml_rune r =
     (if r = [CHR 0xEF, CHR 0xBF, CHR 0xBE] \<or> r = [CHR 0xEF, CHR 0xBF, CHR 0xBF] then replacement else r)"

function xml_escape :: "gostring \<Rightarrow> gostring" where
  "xml_escape s =
     (if s = [] then []
      else if utf8_width s = 0 then replacement @ xml_escape (tl s)
      else if utf8_width s = 1 then xml_ascii (hd s) @ xml_escape (tl s)
      else xml_rune (take (utf8_width s) s) @ xml_escape (drop (utf8_width s) s))"
  by pat_completeness auto

termination by (relation "measure length") auto

declare xml_escape.simps [simp del]

definition xml_attr :: "gostring \<times> gostring \<Rightarrow> gostring" where
  "xml_attr a = '' '' @ fst a @ ''='' @ [quote_mark] @ xml_escape (snd a) @ [quote_mark]"

definition xml_indent :: "nat \<Rightarrow> gostring" where
  "xml_indent depth = CHR 0x0A # concat (replicate depth ''  '')"

definition xml_open :: "gostring \<Rightarrow> (gostring \<times> gostring) list \<Rightarrow> gostring" where
  "xml_open n as = ''<'' @ n @ concat (map xml_attr as) @ ''>''"

definition xml_close :: "gostring \<Rightarrow> gostring" where
  "xml_close n = ''</'' @ n @ ''>''"

text \<open>The end tag stands on a line of its own when there are children.\<close>

fun xml_text :: "nat \<Rightarrow> xml \<Rightarrow> gostring" where
  "xml_text depth (Elem n as t cs) = xml_open n as @ xml_escape t @
     (if cs = [] then [] else concat (map (\<lambda>c. xml_indent (Suc depth) @ xml_text (Suc depth) c) cs) @ xml_indent depth) @
     xml_close n"

section \<open>Reading\<close>

function unescape :: "gostring \<Rightarrow> gostring" where
  "unescape s =
     (if s = [] then []
      else if hd s = CHR ''&'' then
        (case map_of entities (takeWhile (\<lambda>c. c \<noteq> CHR '';'') (tl s)) of
           Some d \<Rightarrow> d # unescape (tl (dropWhile (\<lambda>c. c \<noteq> CHR '';'') (tl s)))
         | None \<Rightarrow> CHR ''&'' # unescape (tl s))
      else hd s # unescape (tl s))"
  by pat_completeness auto

termination
proof (relation "measure length")
  fix s :: gostring
  assume s: "s \<noteq> []"
  have "length (dropWhile (\<lambda>c. c \<noteq> CHR '';'') (tl s)) \<le> length (tl s)" by (rule length_dropWhile_le)
  then have "length (tl (dropWhile (\<lambda>c. c \<noteq> CHR '';'') (tl s))) \<le> length (tl s)" by simp
  moreover have "length (tl s) < length s" using s by simp
  ultimately show "(tl (dropWhile (\<lambda>c. c \<noteq> CHR '';'') (tl s)), s) \<in> measure length" by simp
qed auto

declare unescape.simps [simp del]

definition name_char :: "char \<Rightarrow> bool" where
  "name_char c \<longleftrightarrow> is_lower_ascii c \<or> is_upper_ascii c \<or> is_digit_ascii c \<or> c = CHR ''_''"

text \<open>The attributes up to the end of a start tag, and what follows it.\<close>

function read_attrs :: "gostring \<Rightarrow> ((gostring \<times> gostring) list \<times> gostring) option" where
  "read_attrs s =
     (if s = [] then None
      else if hd s = CHR ''>'' then Some ([], tl s)
      else if hd s \<noteq> CHR '' '' then None
      else let n = takeWhile name_char (tl s); u = dropWhile name_char (tl s) in
        if take 2 u \<noteq> [CHR ''='', quote_mark] then None
        else let v = takeWhile (\<lambda>c. c \<noteq> quote_mark) (drop 2 u); w = dropWhile (\<lambda>c. c \<noteq> quote_mark) (drop 2 u) in
          if w = [] then None
          else map_option (\<lambda>(as, rest). ((n, unescape v) # as, rest)) (read_attrs (tl w)))"
  by pat_completeness auto

termination
proof (relation "measure length")
  fix s u w :: gostring
  assume "s \<noteq> []" and u: "u = dropWhile name_char (tl s)"
    and w: "w = dropWhile (\<lambda>c. c \<noteq> quote_mark) (drop 2 u)" "w \<noteq> []"
  have "length w \<le> length (drop 2 u)" unfolding w(1) by (rule length_dropWhile_le)
  moreover have "length u \<le> length (tl s)" unfolding u by (rule length_dropWhile_le)
  ultimately show "(tl w, s) \<in> measure length" using w(2) \<open>s \<noteq> []\<close> by (cases w; cases s) auto
qed simp

declare read_attrs.simps [simp del]

definition strip_prefix :: "gostring \<Rightarrow> gostring \<Rightarrow> gostring option" where
  "strip_prefix p s = (if take (length p) s = p then Some (drop (length p) s) else None)"

definition blank :: "gostring \<Rightarrow> bool" where
  "blank s \<longleftrightarrow> list_all (\<lambda>c. c = CHR '' '' \<or> c = CHR 0x0A) s"

text \<open>
  An element, and the content of one up to its end tag: text, or children with blanks between them.
  Every call takes a unit of fuel.
\<close>

fun read_elem :: "nat \<Rightarrow> gostring \<Rightarrow> (xml \<times> gostring) option"
  and read_content :: "nat \<Rightarrow> gostring \<Rightarrow> (gostring \<times> xml list \<times> gostring) option" where
  "read_elem 0 s = None"
| "read_elem (Suc k) s =
     (if s = [] \<or> hd s \<noteq> CHR ''<'' then None
      else let n = takeWhile name_char (tl s) in
        case read_attrs (dropWhile name_char (tl s)) of
          None \<Rightarrow> None
        | Some (as, u) \<Rightarrow> (case read_content k u of
            None \<Rightarrow> None
          | Some (t, cs, v) \<Rightarrow> map_option (\<lambda>w. (Elem n as t cs, w)) (strip_prefix (xml_close n) v)))"
| "read_content 0 s = None"
| "read_content (Suc k) s =
     (let t = takeWhile (\<lambda>c. c \<noteq> CHR ''<'') s; u = dropWhile (\<lambda>c. c \<noteq> CHR ''<'') s in
      if take 2 u = ''</'' then Some (unescape t, [], u)
      else if \<not> blank t then None
      else (case read_elem k u of
          None \<Rightarrow> None
        | Some (c, v) \<Rightarrow> (case read_content k v of
            None \<Rightarrow> None
          | Some (t', cs, w) \<Rightarrow> if blank t' then Some ([], c # cs, w) else None)))"

text \<open>A document is one element and nothing more.\<close>

definition read_xml :: "gostring \<Rightarrow> xml option" where
  "read_xml s = (case read_elem (length s) s of
       Some (x, rest) \<Rightarrow> if rest = [] then Some x else None
     | None \<Rightarrow> None)"

section \<open>Reading what was written\<close>

definition xml_ascii_clean :: "char \<Rightarrow> gostring" where
  "xml_ascii_clean c = (if entity_of c = None \<and> byte c < 32 then replacement else [c])"

text \<open>What a string is after the encoder.\<close>

function xml_clean :: "gostring \<Rightarrow> gostring" where
  "xml_clean s =
     (if s = [] then []
      else if utf8_width s = 0 then replacement @ xml_clean (tl s)
      else if utf8_width s = 1 then xml_ascii_clean (hd s) @ xml_clean (tl s)
      else xml_rune (take (utf8_width s) s) @ xml_clean (drop (utf8_width s) s))"
  by pat_completeness auto

termination by (relation "measure length") auto

declare xml_clean.simps [simp del]

lemma xml_clean_Nil [simp]: "xml_clean [] = []"
  by (subst xml_clean.simps) simp

lemma xml_escape_Nil [simp]: "xml_escape [] = []"
  by (subst xml_escape.simps) simp

lemma unescape_Nil [simp]: "unescape [] = []"
  by (subst unescape.simps) simp

lemma unescape_plain: "c \<noteq> CHR ''&'' \<Longrightarrow> unescape (c # t) = c # unescape t"
  by (subst unescape.simps) simp

lemma unescape_plains: "CHR ''&'' \<notin> set s \<Longrightarrow> unescape (s @ t) = s @ unescape t"
  by (induction s) (auto simp: unescape_plain)

lemma span_until:
  assumes "c \<notin> set v"
  shows "takeWhile (\<lambda>x. x \<noteq> c) (v @ c # t) = v" "dropWhile (\<lambda>x. x \<noteq> c) (v @ c # t) = c # t"
proof -
  have "\<forall>x \<in> set v. x \<noteq> c" using assms by auto
  then show "takeWhile (\<lambda>x. x \<noteq> c) (v @ c # t) = v" "dropWhile (\<lambda>x. x \<noteq> c) (v @ c # t) = c # t"
    by (simp_all add: takeWhile_append2 dropWhile_append2)
qed

lemma unescape_entity:
  assumes "(n, d) \<in> set entities"
  shows "unescape (CHR ''&'' # n @ CHR '';'' # t) = d # unescape t"
proof -
  have "CHR '';'' \<notin> set n" "map_of entities n = Some d" using assms by (auto simp: entities_def)
  then show ?thesis using span_until [of "CHR '';''" n t] by (subst unescape.simps) simp
qed

lemma entity_of_Some: "entity_of c = Some n \<Longrightarrow> (n, c) \<in> set entities"
  unfolding entity_of_def by (drule map_of_SomeD) auto

lemma entity_of_None: "entity_of c = None \<Longrightarrow> c \<notin> {CHR 0x22, CHR 0x27, CHR ''&'', CHR ''<'', CHR ''>''}"
  by (auto simp: entity_of_def entities_def split: if_splits)

lemma replacement_high: "\<forall>c \<in> set replacement. 128 \<le> byte c"
  by (simp add: replacement_def byte_def)

lemma high_plain: "\<forall>c \<in> set r. 128 \<le> byte c \<Longrightarrow> CHR ''&'' \<notin> set r \<and> CHR ''<'' \<notin> set r \<and> quote_mark \<notin> set r"
  by (auto simp: byte_def quote_mark_def)

lemma xml_rune_high: "\<forall>c \<in> set r. 128 \<le> byte c \<Longrightarrow> \<forall>c \<in> set (xml_rune r). 128 \<le> byte c"
  using replacement_high by (simp add: xml_rune_def)

lemma unescape_ascii: "unescape (xml_ascii c @ t) = xml_ascii_clean c @ unescape t"
proof (cases "entity_of c")
  case None
  then show ?thesis
    using entity_of_None [OF None] unescape_plain [of c t] unescape_plains [of replacement t] high_plain [OF replacement_high]
    by (simp add: xml_ascii_def xml_ascii_clean_def)
next
  case (Some n)
  then show ?thesis using unescape_entity [OF entity_of_Some [OF Some], of t]
    by (simp add: xml_ascii_def xml_ascii_clean_def)
qed

lemma unescape_escape: "unescape (xml_escape s) = xml_clean s"
proof (induction s rule: xml_escape.induct)
  case (1 s)
  consider (nil) "s = []" | (bad) "s \<noteq> []" "utf8_width s = 0" | (one) "s \<noteq> []" "utf8_width s \<noteq> 0" "utf8_width s = 1"
    | (wide) "s \<noteq> []" "utf8_width s \<noteq> 0" "utf8_width s \<noteq> 1" by blast
  then show ?case
  proof cases
    case bad
    then show ?thesis
      using "1.IH"(1) [OF bad] unescape_plains [of replacement "xml_escape (tl s)"] high_plain [OF replacement_high]
      by (simp add: xml_escape.simps [of s] xml_clean.simps [of s])
  next
    case one
    then show ?thesis using "1.IH"(2) [OF one] by (simp add: xml_escape.simps [of s] xml_clean.simps [of s] unescape_ascii)
  next
    case wide
    then have "\<forall>c \<in> set (take (utf8_width s) s). 128 \<le> byte c" using utf8_wide_bytes [of s] by auto
    from unescape_plains [OF conjunct1 [OF high_plain [OF xml_rune_high [OF this]]], of "xml_escape (drop (utf8_width s) s)"]
    show ?thesis using "1.IH"(3) [OF wide] wide
      by (simp add: xml_escape.simps [of s] xml_clean.simps [of s])
  qed simp
qed

lemma xml_ascii_safe: "CHR ''<'' \<notin> set (xml_ascii c)" "quote_mark \<notin> set (xml_ascii c)"
proof -
  have e: "CHR ''<'' \<notin> set n \<and> quote_mark \<notin> set n" if "(n, d) \<in> set entities" for n d
    using that by (auto simp: entities_def quote_mark_def)
  show "CHR ''<'' \<notin> set (xml_ascii c)" "quote_mark \<notin> set (xml_ascii c)"
    using e [OF entity_of_Some, of c] entity_of_None [of c] high_plain [OF replacement_high]
    by (auto simp: xml_ascii_def quote_mark_def split: option.splits)
qed

lemma xml_escape_safe: "CHR ''<'' \<notin> set (xml_escape s) \<and> quote_mark \<notin> set (xml_escape s)"
proof (induction s rule: xml_escape.induct)
  case (1 s)
  have "\<forall>c \<in> set (xml_rune (take (utf8_width s) s)). 128 \<le> byte c" if "utf8_width s \<noteq> 0" "utf8_width s \<noteq> 1"
    using that utf8_wide_bytes [of s] by (intro xml_rune_high) auto
  then show ?case
    using 1 high_plain [OF replacement_high] high_plain [of "xml_rune (take (utf8_width s) s)"] xml_ascii_safe
    by (subst (1 2) xml_escape.simps) auto
qed

definition clean_attrs :: "(gostring \<times> gostring) list \<Rightarrow> (gostring \<times> gostring) list" where
  "clean_attrs as = map (\<lambda>(n, v). (n, xml_clean v)) as"

definition names_ok :: "(gostring \<times> gostring) list \<Rightarrow> bool" where
  "names_ok as \<longleftrightarrow> list_all (\<lambda>(n, v). list_all name_char n) as"

lemma name_char_marks [simp]:
  "\<not> name_char CHR ''=''" "\<not> name_char CHR ''>''" "\<not> name_char CHR '' ''" "\<not> name_char CHR ''/''" "\<not> name_char CHR ''<''"
  by (simp_all add: name_char_def is_lower_ascii_def is_upper_ascii_def is_digit_ascii_def in_byte_range_def byte_def)

lemma name_span:
  assumes "list_all name_char n" and "\<not> name_char c"
  shows "takeWhile name_char (n @ c # t) = n" "dropWhile name_char (n @ c # t) = c # t"
  using assms by (simp_all add: takeWhile_append2 dropWhile_append2 list_all_iff)

lemma read_attrs_written:
  "names_ok as \<Longrightarrow> read_attrs (concat (map xml_attr as) @ CHR ''>'' # t) = Some (clean_attrs as, t)"
proof (induction as)
  case Nil
  then show ?case by (subst read_attrs.simps) (simp add: clean_attrs_def)
next
  case (Cons a as)
  obtain n v where a: "a = (n, v)" by (cases a)
  have n: "list_all name_char n" using Cons.prems a by (simp add: names_ok_def)
  have s: "concat (map xml_attr (a # as)) @ CHR ''>'' # t =
      CHR '' '' # n @ CHR ''='' # quote_mark # xml_escape v @ quote_mark # concat (map xml_attr as) @ CHR ''>'' # t"
    by (simp add: xml_attr_def a)
  have ne: "CHR '' '' # n @ CHR ''='' # quote_mark # xml_escape v @ quote_mark # concat (map xml_attr as) @ CHR ''>'' # t \<noteq> []"
    by simp
  show ?case
    unfolding s
    using Cons name_span [OF n, of "CHR ''=''"] span_until [OF conjunct2 [OF xml_escape_safe]]
    by (subst read_attrs.simps) (simp add: names_ok_def clean_attrs_def a unescape_escape Let_def)
qed

fun wf_xml :: "xml \<Rightarrow> bool" where
  "wf_xml (Elem n as t cs) \<longleftrightarrow> list_all name_char n \<and> names_ok as \<and> (cs = [] \<or> t = []) \<and> (\<forall>c \<in> set cs. wf_xml c)"

fun clean_xml :: "xml \<Rightarrow> xml" where
  "clean_xml (Elem n as t cs) = Elem n (clean_attrs as) (xml_clean t) (map clean_xml cs)"

fun xml_fuel :: "xml \<Rightarrow> nat" where
  "xml_fuel (Elem n as t cs) = 2 + (\<Sum>c\<leftarrow>cs. xml_fuel c + 1)"

lemma blank_indent: "blank (xml_indent d)" "CHR ''<'' \<notin> set (xml_indent d)" "CHR ''&'' \<notin> set (xml_indent d)"
proof -
  have s: "set (xml_indent d) \<subseteq> {CHR '' '', CHR 0x0A}" by (auto simp: xml_indent_def)
  then show "blank (xml_indent d)" by (auto simp: blank_def list_all_iff)
  show "CHR ''<'' \<notin> set (xml_indent d)" "CHR ''&'' \<notin> set (xml_indent d)" using s by auto
qed

lemma xml_text_head: "\<exists>u. xml_text d x = CHR ''<'' # u \<and> (wf_xml x \<longrightarrow> take 1 u \<noteq> ''/'' \<and> u \<noteq> [])"
proof (cases x)
  case (Elem n as t cs)
  have "take 1 (n @ concat (map xml_attr as) @ CHR ''>'' # v) \<noteq> ''/''" if "list_all name_char n" for v
    using that by (cases n; cases as) (auto simp: xml_attr_def)
  then show ?thesis using Elem by (auto simp: xml_open_def)
qed

lemma read_children:
  assumes "\<And>c k rest. c \<in> set cs \<Longrightarrow> xml_fuel c \<le> k \<Longrightarrow> read_elem k (xml_text d' c @ rest) = Some (clean_xml c, rest)"
    and "\<forall>c \<in> set cs. wf_xml c" and "(\<Sum>c\<leftarrow>cs. xml_fuel c + 1) + 1 \<le> k"
  shows "read_content k (concat (map (\<lambda>c. xml_indent d' @ xml_text d' c) cs) @ xml_indent d @ xml_close n @ rest) =
    Some (if cs = [] then xml_indent d else [], map clean_xml cs, xml_close n @ rest)"
  using assms
proof (induction cs arbitrary: k)
  case Nil
  obtain j where k: "k = Suc j" using Nil.prems(3) by (cases k) auto
  have c: "xml_close n @ rest = CHR ''<'' # CHR ''/'' # n @ CHR ''>'' # rest" by (simp add: xml_close_def)
  show ?case
    using span_until [OF blank_indent(2)] unescape_plains [OF blank_indent(3), of d "[]"]
    by (simp add: k c)
next
  case (Cons c cs)
  obtain j where k: "k = Suc j" using Cons.prems(3) by (cases k) auto
  let ?rest = "concat (map (\<lambda>c. xml_indent d' @ xml_text d' c) cs) @ xml_indent d @ xml_close n @ rest"
  obtain u where u: "xml_text d' c = CHR ''<'' # u" "take 1 u \<noteq> ''/''" "u \<noteq> []"
    using xml_text_head [of d' c] Cons.prems(2) by auto
  have e: "read_elem j (xml_text d' c @ ?rest) = Some (clean_xml c, ?rest)"
    by (rule Cons.prems(1)) (use Cons.prems(3) k in auto)
  have i: "read_content j ?rest = Some (if cs = [] then xml_indent d else [], map clean_xml cs, xml_close n @ rest)"
    by (rule Cons.IH) (use Cons.prems k in auto)
  have "take 2 (xml_text d' c @ ?rest) \<noteq> ''</''" using u by (cases u) (auto simp: numeral_2_eq_2)
  then show ?case
    using e i span_until [OF blank_indent(2), of d' "u @ ?rest"] u(1) blank_indent(1)
    by (simp add: k) (simp add: blank_def)
qed

lemma read_elem_written:
  "wf_xml x \<Longrightarrow> xml_fuel x \<le> k \<Longrightarrow> read_elem k (xml_text d x @ rest) = Some (clean_xml x, rest)"
proof (induction x arbitrary: d k rest)
  case (Elem n as t cs)
  have n: "list_all name_char n" and as: "names_ok as" and tc: "cs = [] \<or> t = []" and cs: "\<forall>c \<in> set cs. wf_xml c"
    using Elem.prems(1) by simp_all
  obtain i where k: "k = Suc (Suc i)" using Elem.prems(2) by (cases k; cases "k - 1") auto
  let ?body = "xml_escape t @ (if cs = [] then [] else
      concat (map (\<lambda>c. xml_indent (Suc d) @ xml_text (Suc d) c) cs) @ xml_indent d) @ xml_close n @ rest"
  have x: "xml_text d (Elem n as t cs) @ rest = CHR ''<'' # n @ concat (map xml_attr as) @ CHR ''>'' # ?body"
    by (simp add: xml_open_def)
  have content: "read_content (Suc i) ?body = Some (xml_clean t, map clean_xml cs, xml_close n @ rest)"
  proof (cases "cs = []")
    case True
    have c: "xml_close n @ rest = CHR ''<'' # CHR ''/'' # n @ CHR ''>'' # rest" by (simp add: xml_close_def)
    show ?thesis using True span_until [OF conjunct1 [OF xml_escape_safe]]
      by (simp add: c unescape_escape)
  next
    case False
    have "read_content (Suc i) (concat (map (\<lambda>c. xml_indent (Suc d) @ xml_text (Suc d) c) cs) @ xml_indent d @
        xml_close n @ rest) = Some (if cs = [] then xml_indent d else [], map clean_xml cs, xml_close n @ rest)"
    proof (rule read_children)
      show "read_elem k' (xml_text (Suc d) c @ rest') = Some (clean_xml c, rest')"
        if "c \<in> set cs" "xml_fuel c \<le> k'" for c k' rest'
        using Elem.IH [OF that(1)] cs that by blast
    qed (use cs Elem.prems(2) k in auto)
    then show ?thesis using False tc by simp
  qed
  obtain c u where h: "concat (map xml_attr as) @ CHR ''>'' # ?body = c # u" "\<not> name_char c"
    by (cases as) (auto simp: xml_attr_def)
  have "read_attrs (c # u) = Some (clean_attrs as, ?body)"
    using read_attrs_written [OF as, of ?body] h(1) by simp
  moreover have "takeWhile name_char (n @ c # u) = n" "dropWhile name_char (n @ c # u) = c # u"
    using name_span [OF n h(2)] by simp_all
  ultimately show ?case
    using content unfolding x h(1) k
    by (simp add: Let_def strip_prefix_def)
qed

lemma xml_fuel_le: "xml_fuel x \<le> length (xml_text d x)"
proof (induction x arbitrary: d)
  case (Elem n as t cs)
  have "(\<Sum>c\<leftarrow>cs. xml_fuel c + 1) \<le> length (concat (map (\<lambda>c. xml_indent (Suc d) @ xml_text (Suc d) c) cs))"
    using Elem.IH [of _ "Suc d"]
  proof (induction cs)
    case (Cons c cs)
    then show ?case by (fastforce simp: xml_indent_def intro: add_mono)
  qed simp
  then show ?case by (auto simp: xml_open_def xml_close_def)
qed

text \<open>A document reads back as what it was written from, up to the characters XML has no place for.\<close>

lemma read_xml_written:
  assumes "wf_xml x"
  shows "read_xml (xml_text 0 x) = Some (clean_xml x)"
  using read_elem_written [OF assms xml_fuel_le, of 0 0 "[]"] by (simp add: read_xml_def)

text \<open>Text that is UTF-8 and of characters XML allows is read back as it is.\<close>

definition xml_plain :: "gostring \<Rightarrow> bool" where
  "xml_plain s \<longleftrightarrow> (\<forall>c \<in> set s. byte c < 128 \<and> (32 \<le> byte c \<or> c \<in> {CHR 0x09, CHR 0x0A, CHR 0x0D}))"

lemma xml_clean_plain: "xml_plain s \<Longrightarrow> xml_clean s = s"
proof (induction s)
  case (Cons c s)
  have w: "utf8_width (c # s) = 1" using Cons.prems by (simp add: xml_plain_def)
  have "xml_ascii_clean c = [c]"
    using Cons.prems by (auto simp: xml_plain_def xml_ascii_clean_def entity_of_def entities_def)
  then show ?case using Cons w by (subst xml_clean.simps) (simp add: xml_plain_def)
qed simp

end
