(* ===== verification/Selecting.thy ===== *)
theory Selecting
  imports Registry Marker_Grammar
begin

text \<open>
  Narrowing a registry to the tests of a run (\<open>internal/harness/select.go\<close>): a name pattern,
  a marker expression and an allow-list of pytest node IDs. A compiled regular expression is the
  predicate it decides on names.
\<close>

section \<open>Definitions\<close>

record selection =
  selRun :: "(gostring \<Rightarrow> bool) option"
  selMarkers :: marker_expr
  selAllowList :: "gostring list"

datatype select_error =
    NotANodeID gostring
  | NamesNoTest gostring
  | WrongModule gostring gostring gostring
  | EmptyAllowList
  | ReadNodeIDs scan_error

text \<open>\<open>(r *Registry) resolve\<close>\<close>

fun resolve :: "'f registry \<Rightarrow> gostring list \<Rightarrow> (select_error, 'f gotest list) res" where
  "resolve r [] = Inr []"
| "resolve r (i # ids) =
     (let (module, name, ok) = str_cut i ''::'' in
      if \<not> ok then Inl (NotANodeID i)
      else case reg_lookup r (trim_prefix name ''test_'') of
        None \<Rightarrow> Inl (NamesNoTest i)
      | Some t \<Rightarrow>
          if tModule t \<noteq> module then Inl (WrongModule i (tModule t) module)
          else (case resolve r ids of Inl e \<Rightarrow> Inl e | Inr ts \<Rightarrow> Inr (t # ts)))"

definition selected :: "selection \<Rightarrow> 'f gotest \<Rightarrow> bool" where
  "selected s t \<longleftrightarrow>
     (case selRun s of None \<Rightarrow> True | Some matches \<Rightarrow> matches (tName t)) \<and>
     marker_match (selMarkers s) (tMarkers t)"

definition reg_select :: "'f registry \<Rightarrow> selection \<Rightarrow> (select_error, 'f gotest list) res" where
  "reg_select r s =
     (case (if selAllowList s \<noteq> [] then resolve r (selAllowList s) else Inr (reg_all r)) of
        Inl e \<Rightarrow> Inl e
      | Inr candidates \<Rightarrow> Inr (filter (selected s) candidates))"

definition node_id_of_line :: "gostring \<Rightarrow> gostring" where
  "node_id_of_line line = trim_space (takeWhile (\<lambda>c. c \<noteq> CHR ''#'') line)"

definition parseNodeIDs :: "go_reader \<Rightarrow> (select_error, gostring list) res" where
  "parseNodeIDs rd =
     (let (ls, err) = scan_lines rd;
          ids = filter (\<lambda>i. i \<noteq> '''') (map node_id_of_line ls)
      in case err of Some e \<Rightarrow> Inl (ReadNodeIDs e) | None \<Rightarrow> Inr ids)"

definition ParseAllowList :: "go_reader \<Rightarrow> (select_error, gostring list) res" where
  "ParseAllowList rd = (case parseNodeIDs rd of
       Inl e \<Rightarrow> Inl e
     | Inr ids \<Rightarrow> if ids = [] then Inl EmptyAllowList else Inr ids)"

definition nodeIDName :: "gostring \<Rightarrow> gostring option" where
  "nodeIDName i = (let (_, name, ok) = str_cut i ''::'' in
     if \<not> ok then None else Some (trim_prefix name ''test_''))"

section \<open>Node IDs\<close>

lemma str_index_module:
  assumes "m = ModuleS3 \<or> m = ModuleHeaders"
  shows "str_index (m @ ''::'' @ s) ''::'' = Some (length m)"
  using assms by (auto simp: ModuleS3_def ModuleHeaders_def has_prefix_def)

lemma str_cut_NodeID:
  assumes "tModule t = ModuleS3 \<or> tModule t = ModuleHeaders"
  shows "str_cut (NodeID t) ''::'' = (tModule t, ''test_'' @ tName t, True)"
proof -
  have eq: "NodeID t = tModule t @ ''::'' @ (''test_'' @ tName t)" by (simp add: NodeID_def)
  have "str_index (NodeID t) ''::'' = Some (length (tModule t))"
    unfolding eq by (rule str_index_module [OF assms])
  then show ?thesis by (simp add: str_cut_def eq)
qed

lemma nodeIDName_NodeID: "valid_test t \<Longrightarrow> nodeIDName (NodeID t) = Some (tName t)"
  by (simp add: nodeIDName_def str_cut_NodeID valid_test_def trim_prefix_def has_prefix_def)

section \<open>Resolving an allow-list\<close>

text \<open>
  Every entry that resolves is the registered test of the name the entry gives, in the module the
  entry gives; the entries keep their order.
\<close>

definition entry_names :: "'f registry \<Rightarrow> gostring \<Rightarrow> 'f gotest \<Rightarrow> bool" where
  "entry_names r i t \<longleftrightarrow>
     (\<exists>name. str_cut i ''::'' = (tModule t, name, True) \<and>
        reg_lookup r (trim_prefix name ''test_'') = Some t)"

lemma resolve_Inr: "resolve r ids = Inr ts \<longleftrightarrow> list_all2 (entry_names r) ids ts"
proof (induction ids arbitrary: ts)
  case (Cons i ids)
  obtain m name ok where c: "str_cut i ''::'' = (m, name, ok)" by (cases "str_cut i ''::''")
  have e: "entry_names r i t \<longleftrightarrow> ok \<and> m = tModule t \<and> reg_lookup r (trim_prefix name ''test_'') = Some t" for t
    by (auto simp: entry_names_def c)
  show ?case
    by (cases ts) (auto simp: c e Cons.IH [symmetric] split: option.splits sum.splits)
qed auto

lemma resolve_registered:
  assumes inv: "reg_invar r" and "resolve r ids = Inr ts"
  shows "set ts \<subseteq> set (reg_all r)"
proof
  fix t
  assume "t \<in> set ts"
  with assms(2) have "\<exists>i. entry_names r i t"
    unfolding resolve_Inr by (auto simp: list_all2_conv_all_nth in_set_conv_nth)
  then show "t \<in> set (reg_all r)" by (auto simp: entry_names_def reg_source.lookup_all [OF inv])
qed

lemma resolve_NodeIDs:
  assumes inv: "reg_invar r" and "set ts \<subseteq> set (reg_all r)"
  shows "resolve r (map NodeID ts) = Inr ts"
  using assms(2)
proof (induction ts)
  case (Cons t ts)
  then have t: "t \<in> set (reg_all r)" by simp
  then have v: "valid_test t" by (rule reg_source.all_valid [OF inv])
  from t have "reg_lookup r (tName t) = Some t" by (rule reg_source.lookup_own_name [OF inv])
  with v Cons show ?case
    by (simp add: str_cut_NodeID valid_test_def trim_prefix_def has_prefix_def)
qed simp

fun refused_entry :: "select_error \<Rightarrow> gostring option" where
  "refused_entry (NotANodeID i) = Some i"
| "refused_entry (NamesNoTest i) = Some i"
| "refused_entry (WrongModule i m m') = Some i"
| "refused_entry _ = None"

lemma resolve_Inl:
  "resolve r ids = Inl e \<Longrightarrow> \<exists>k < length ids. refused_entry e = Some (ids ! k) \<and>
     \<not> (\<exists>t. entry_names r (ids ! k) t) \<and> list_all (\<lambda>i. \<exists>t. entry_names r i t) (take k ids)"
proof (induction ids)
  case (Cons i ids)
  show ?case
  proof (cases "\<exists>t. entry_names r i t")
    case True
    then have "resolve r ids = Inl e"
      using Cons.prems by (auto simp: entry_names_def split: sum.splits)
    from Cons.IH [OF this] obtain k where "k < length ids" "refused_entry e = Some (ids ! k)"
      "\<not> (\<exists>t. entry_names r (ids ! k) t)" "list_all (\<lambda>i. \<exists>t. entry_names r i t) (take k ids)" by blast
    then show ?thesis using True by (intro exI [of _ "Suc k"]) simp
  next
    case False
    then have "refused_entry e = Some i"
      using Cons.prems by (auto simp: entry_names_def Let_def split: prod.splits if_splits option.splits)
    then show ?thesis using False by (intro exI [of _ 0]) simp
  qed
qed simp

text \<open>
  C11. An allow-list is a gate: it resolves exactly when every entry is a node ID whose name is
  registered under the module the entry gives, and then to those tests in the list's order; otherwise
  the error names the first entry that is not one. No entry is skipped.
\<close>

theorem resolve_gate:
  "case resolve r ids of
     Inr ts \<Rightarrow> list_all2 (entry_names r) ids ts
   | Inl e \<Rightarrow> (\<exists>k. k < length ids \<and> refused_entry e = Some (ids ! k) \<and>
       \<not> (\<exists>t. entry_names r (ids ! k) t) \<and> list_all (\<lambda>i. \<exists>t. entry_names r i t) (take k ids))"
proof (cases "resolve r ids")
  case (Inl e)
  then show ?thesis using resolve_Inl [of r ids e] by simp
next
  case (Inr ts)
  then show ?thesis using resolve_Inr [of r ids ts] by simp
qed

section \<open>Select\<close>

lemma reg_select_no_list:
  "selAllowList s = [] \<Longrightarrow> reg_select r s = Inr (filter (selected s) (reg_all r))"
  by (simp add: reg_select_def)

lemma reg_select_Inr:
  assumes inv: "reg_invar r" and "reg_select r s = Inr ts"
  shows "set ts \<subseteq> set (reg_all r) \<and> (\<forall>t \<in> set ts. selected s t)"
proof (cases "selAllowList s = []")
  case True
  with assms(2) show ?thesis by (auto simp: reg_select_no_list)
next
  case False
  with assms(2) obtain cs where "resolve r (selAllowList s) = Inr cs" and "ts = filter (selected s) cs"
    by (auto simp: reg_select_def split: sum.splits)
  with resolve_registered [OF inv this(1)] show ?thesis by auto
qed

text \<open>The criteria, one by one.\<close>

lemma selected_iff:
  "selected s t \<longleftrightarrow> (case selRun s of None \<Rightarrow> True | Some p \<Rightarrow> p (tName t)) \<and>
     (case selMarkers s of None \<Rightarrow> True | Some e \<Rightarrow> node_eval e (\<lambda>m. m \<in> set (tMarkers t)))"
  by (simp add: selected_def marker_match_def marker_set_of_empty split: option.splits)

text \<open>
  C12. The criteria intersect: what is selected is registered, matches the pattern, satisfies the
  marker expression with the markers it carries and, when there is an allow-list, is named by it; and
  everything that meets all of them is selected.
\<close>

theorem reg_select_intersection:
  assumes "NewRegistry all_ts = Inr r" and "reg_select r s = Inr ts"
  shows "set ts = {t \<in> set all_ts.
           (case selRun s of None \<Rightarrow> True | Some p \<Rightarrow> p (tName t)) \<and>
           (case selMarkers s of None \<Rightarrow> True | Some e \<Rightarrow> node_eval e (\<lambda>m. m \<in> set (tMarkers t))) \<and>
           (selAllowList s = [] \<or> (\<exists>i \<in> set (selAllowList s). entry_names r i t))}"
proof -
  have inv: "reg_invar r" using NewRegistry_Inr [OF assms(1)] by simp
  have all: "set (reg_all r) = set all_ts" using reg_all_NewRegistry [OF assms(1)] by simp
  show ?thesis
  proof (cases "selAllowList s = []")
    case True
    then have "ts = filter (selected s) (reg_all r)" using assms(2) reg_select_no_list [OF True, of r] by simp
    then show ?thesis using all True by (auto simp: selected_iff)
  next
    case False
    with assms(2) obtain cs where cs: "resolve r (selAllowList s) = Inr cs"
      and ts: "ts = filter (selected s) cs"
      by (auto simp: reg_select_def split: sum.splits)
    have 2: "list_all2 (entry_names r) (selAllowList s) cs" using cs by (simp add: resolve_Inr)
    have uniq: "t = u" if "entry_names r i t" "entry_names r i u" for i t u
      using that by (auto simp: entry_names_def)
    have "t \<in> set cs \<longleftrightarrow> (\<exists>i \<in> set (selAllowList s). entry_names r i t)" for t
      by (rule list_all2_functional_set [OF 2 uniq])
    moreover have "set cs \<subseteq> set all_ts" using resolve_registered [OF inv cs] all by simp
    ultimately show ?thesis using False ts by (auto simp: selected_iff)
  qed
qed

text \<open>
  Without an allow-list the selection is the sorted registry filtered: strictly sorted by name,
  each test at most once.
\<close>

theorem reg_select_sorted:
  assumes "NewRegistry all_ts = Inr r" and "selAllowList s = []" and "reg_select r s = Inr ts"
  shows "sorted_wrt (<) (map tName ts) \<and> distinct ts"
proof -
  have inv: "reg_invar r" using NewRegistry_Inr [OF assms(1)] by simp
  have ts: "ts = filter (selected s) (reg_all r)" using assms(2,3) by (simp add: reg_select_no_list)
  have "sorted_wrt (<) (map tName ts)" unfolding ts by (rule reg_source.sorted_filter [OF inv])
  then show ?thesis by (metis distinct_map strict_sorted_iff)
qed

text \<open>
  With an allow-list the order is the list's and an entry given twice is selected twice, although
  the comment of \<open>Select\<close> promises tests sorted by name.
\<close>

theorem reg_select_allow_list_unsorted:
  "\<exists>r s ts. NewRegistry [example_test ''a'' [], example_test ''b'' []] = Inr r \<and>
     reg_select r s = Inr ts \<and> map tName ts = [''b'', ''a'', ''b'']"
proof -
  let ?a = "example_test ''a'' []" and ?b = "example_test ''b'' []"
  let ?r = "\<lparr>byName = [(''a'', ?a), (''b'', ?b)]\<rparr>"
  let ?s = "\<lparr>selRun = None, selMarkers = None, selAllowList = map NodeID [?b, ?a, ?b]\<rparr>"
  have r: "NewRegistry [?a, ?b] = Inr ?r" by (simp add: NewRegistry_def reg_lookup_def)
  then have inv: "reg_invar ?r" using NewRegistry_Inr by blast
  have "resolve ?r (map NodeID [?b, ?a, ?b]) = Inr [?b, ?a, ?b]"
    by (rule resolve_NodeIDs [OF inv]) (simp add: reg_all_NewRegistry [OF r])
  then have "reg_select ?r ?s = Inr [?b, ?a, ?b]"
    by (simp add: reg_select_def selected_def [abs_def] marker_match_def)
  with r show ?thesis by fastforce
qed

section \<open>A listing is an allow-list\<close>

text \<open>A name a line-oriented file can carry: printable ASCII without a comment sign or a blank.\<close>

definition line_safe :: "gostring \<Rightarrow> bool" where
  "line_safe s \<longleftrightarrow> s \<noteq> [] \<and> length s < max_scan_token \<and>
     list_all (\<lambda>c. in_byte_range 33 126 c \<and> c \<noteq> CHR ''#'') s"

lemma printable_byte:
  assumes "in_byte_range 33 126 c"
  shows "plain_byte c" "\<not> is_ascii_space c" "byte c \<noteq> 10" "byte c \<noteq> 13"
  using assms unfolding in_byte_range_def plain_byte_def is_ascii_space_def by simp_all

lemma line_safe_chars:
  "line_safe s \<Longrightarrow> s \<noteq> [] \<and> length s < max_scan_token \<and>
     (\<forall>c \<in> set s. in_byte_range 33 126 c) \<and> (\<forall>c \<in> set s. c \<noteq> CHR ''#'')"
  unfolding line_safe_def list_all_iff by blast

lemma line_safe_plain: "line_safe s \<Longrightarrow> plain_line s"
  using line_safe_chars printable_byte(3,4) unfolding plain_line_def by blast

lemma line_safe_node_id:
  assumes "line_safe s"
  shows "node_id_of_line s = s"
proof -
  note s = line_safe_chars [OF assms]
  have "takeWhile (\<lambda>c. c \<noteq> CHR ''#'') s = s" using s by (simp add: takeWhile_eq_all_conv)
  moreover have "no_outer_space s"
    using s printable_byte(1,2) by (intro plain_no_outer_space) (blast, blast, metis hd_in_set, metis last_in_set)
  ultimately show ?thesis unfolding node_id_of_line_def by (simp only: trim_space_id)
qed

definition text_reader :: "gostring \<Rightarrow> go_reader" where
  "text_reader s = \<lparr>rd_data = s, rd_err = None\<rparr>"

lemma parseNodeIDs_lines:
  assumes "\<forall>i \<in> set ids. line_safe i"
  shows "parseNodeIDs (text_reader (unlines ids)) = Inr ids"
proof -
  have "scan_lines (text_reader (unlines ids)) = (ids, None)"
    using assms line_safe_plain by (simp add: scan_lines_def text_reader_def scan_loop_unlines)
  moreover have "map node_id_of_line ids = ids"
    using assms by (simp add: line_safe_node_id map_idI)
  moreover have "filter (\<lambda>i. i \<noteq> '''') ids = ids"
    using assms by (intro filter_True) (auto simp: line_safe_def)
  ultimately show ?thesis by (simp add: parseNodeIDs_def)
qed


section \<open>Examples\<close>

lemma example_pair:
  "NewRegistry [example_test ''a'' [''x''], example_test ''b'' []] =
     Inr \<lparr>byName = [(''a'', example_test ''a'' [''x'']), (''b'', example_test ''b'' [])]\<rparr>"
  by (simp add: NewRegistry_def reg_lookup_def)

definition example_selection :: "gostring list \<Rightarrow> selection" where
  "example_selection ids =
     \<lparr>selRun = None, selMarkers = Some (NotNode (IdentNode ''x'')), selAllowList = ids\<rparr>"

lemma example_line_safe:
  "line_safe (NodeID (example_test ''b'' []))" "line_safe (NodeID (example_test ''a'' ms))"
  by (simp_all add: line_safe_def NodeID_def ModuleS3_def in_byte_range_def byte_def max_scan_token_def)

theorem reg_select_intersection_witness:
  "\<exists>r. reg_select r (example_selection (map NodeID [example_test ''b'' [], example_test ''a'' [''x'']])) =
       Inr [example_test ''b'' []] \<and>
     {example_test ''b'' []} = {t \<in> {example_test ''a'' [''x''], example_test ''b'' []}.
       ''x'' \<notin> set (tMarkers t) \<and>
       (\<exists>i \<in> {NodeID (example_test ''b'' []), NodeID (example_test ''a'' [''x''])}. entry_names r i t)}"
proof -
  let ?a = "example_test ''a'' [''x'']" and ?b = "example_test ''b'' []"
  let ?r = "\<lparr>byName = [(''a'', ?a), (''b'', ?b)]\<rparr>"
  let ?s = "example_selection (map NodeID [?b, ?a])"
  have inv: "reg_invar ?r" using NewRegistry_Inr [OF example_pair] by simp
  have res: "resolve ?r (map NodeID [?b, ?a]) = Inr [?b, ?a]"
    by (rule resolve_NodeIDs [OF inv]) (simp add: reg_all_NewRegistry [OF example_pair])
  have sel: "selected ?s ?b" "\<not> selected ?s ?a"
    by (simp_all add: selected_def example_selection_def marker_match_def)
  have ts: "reg_select ?r ?s = Inr [?b]"
    using res sel by (simp add: reg_select_def example_selection_def)
  have "{?b} = {t \<in> {?a, ?b}. ''x'' \<notin> set (tMarkers t) \<and>
      (\<exists>i \<in> {NodeID ?b, NodeID ?a}. entry_names ?r i t)}"
    using reg_select_intersection [OF example_pair ts, symmetric] by (simp add: example_selection_def)
  with ts show ?thesis by blast
qed

theorem reg_select_sorted_witness:
  "sorted_wrt (<) (map tName (filter (selected (example_selection []))
     (reg_all \<lparr>byName = [(''a'', example_test ''a'' [''x'']), (''b'', example_test ''b'' [])]\<rparr>)))"
proof -
  have "selAllowList (example_selection []) = []" by (simp add: example_selection_def)
  from reg_select_sorted [OF example_pair this reg_select_no_list [OF this]] show ?thesis by simp
qed


end
