(* ===== verification/Expecting.thy ===== *)
theory Expecting
  imports Selecting Outcome
begin

text \<open>
  Known failures (\<open>internal/harness/expect.go\<close>): reading the list, classifying results. A nil
  \<open>*KnownFailures\<close> is \<open>None\<close>; the \<open>names\<close> map only ever stores true, so it is the list of its
  keys.
\<close>

section \<open>Definitions\<close>

record known_failures =
  kfNames :: "gostring list"
  kfUnknown :: nat

datatype expect_error = ExpectRead select_error | ExpectNotANodeID gostring

fun add_known :: "'f registry \<Rightarrow> known_failures \<Rightarrow> gostring list \<Rightarrow> (expect_error, known_failures) res" where
  "add_known reg kf [] = Inr kf"
| "add_known reg kf (i # ids) = (case nodeIDName i of
       None \<Rightarrow> Inl (ExpectNotANodeID i)
     | Some name \<Rightarrow>
         (case reg_lookup reg name of
            None \<Rightarrow> add_known reg (kf\<lparr>kfUnknown := kfUnknown kf + 1\<rparr>) ids
          | Some t \<Rightarrow> add_known reg (kf\<lparr>kfNames := List.insert name (kfNames kf)\<rparr>) ids))"

definition ParseKnownFailures :: "go_reader \<Rightarrow> 'f registry \<Rightarrow> (expect_error, known_failures) res" where
  "ParseKnownFailures rd reg = (case parseNodeIDs rd of
       Inl e \<Rightarrow> Inl (ExpectRead e)
     | Inr ids \<Rightarrow> add_known reg \<lparr>kfNames = [], kfUnknown = 0\<rparr> ids)"

definition kf_expected :: "known_failures option \<Rightarrow> gostring \<Rightarrow> bool" where
  "kf_expected k name = (case k of None \<Rightarrow> False | Some kf \<Rightarrow> List.member (kfNames kf) name)"

definition kf_len :: "known_failures option \<Rightarrow> nat" where
  "kf_len k = (case k of None \<Rightarrow> 0 | Some kf \<Rightarrow> length (kfNames kf))"

definition kf_unknown :: "known_failures option \<Rightarrow> nat" where
  "kf_unknown k = (case k of None \<Rightarrow> 0 | Some kf \<Rightarrow> kfUnknown kf)"

definition kf_classify :: "known_failures option \<Rightarrow> 'f run_result \<Rightarrow> 'f run_result" where
  "kf_classify k r =
     (if \<not> kf_expected k (tName (resTest r)) then r
      else case resStatus r of
        StatusFailed \<Rightarrow> r\<lparr>resStatus := StatusExpectedFailure\<rparr>
      | StatusTimeout \<Rightarrow> r\<lparr>resStatus := StatusExpectedFailure\<rparr>
      | StatusPassed \<Rightarrow> r\<lparr>resStatus := StatusUnexpectedPass\<rparr>
      | StatusSkipped \<Rightarrow> r
      | StatusExpectedFailure \<Rightarrow> r
      | StatusUnexpectedPass \<Rightarrow> r)"

section \<open>Reading the list\<close>

definition known_invar :: "'f registry \<Rightarrow> known_failures \<Rightarrow> bool" where
  "known_invar reg kf \<longleftrightarrow> distinct (kfNames kf) \<and> (\<forall>n \<in> set (kfNames kf). reg_lookup reg n \<noteq> None)"

text \<open>The known and the unknown names of a list of entries.\<close>

definition entry_list :: "'f registry \<Rightarrow> bool \<Rightarrow> gostring list \<Rightarrow> gostring list" where
  "entry_list reg known ids =
     filter (\<lambda>n. (reg_lookup reg n \<noteq> None) = known) (List.map_filter nodeIDName ids)"

lemma entry_list_simps [simp]:
  "entry_list reg b [] = []"
  "entry_list reg b (i # ids) = (case nodeIDName i of
       None \<Rightarrow> entry_list reg b ids
     | Some n \<Rightarrow> if (reg_lookup reg n \<noteq> None) = b then n # entry_list reg b ids else entry_list reg b ids)"
  by (auto simp: entry_list_def List.map_filter_def split: option.splits)

lemma add_known_Inr:
  "known_invar reg kf \<Longrightarrow> add_known reg kf ids = Inr kf' \<Longrightarrow>
     known_invar reg kf' \<and> set (kfNames kf') = set (kfNames kf) \<union> set (entry_list reg True ids) \<and>
     kfUnknown kf' = kfUnknown kf + length (entry_list reg False ids)"
proof (induction reg kf ids rule: add_known.induct)
  case (2 reg kf i ids)
  from "2.prems"(2) obtain n where n: "nodeIDName i = Some n" by (auto split: option.splits)
  show ?case
  proof (cases "reg_lookup reg n")
    case None
    with "2.prems" n have "add_known reg (kf\<lparr>kfUnknown := kfUnknown kf + 1\<rparr>) ids = Inr kf'" by simp
    moreover have "known_invar reg (kf\<lparr>kfUnknown := kfUnknown kf + 1\<rparr>)"
      using "2.prems"(1) by (simp add: known_invar_def)
    ultimately show ?thesis using "2.IH"(1) [OF n None] n None by simp
  next
    case (Some t)
    with "2.prems" n have "add_known reg (kf\<lparr>kfNames := List.insert n (kfNames kf)\<rparr>) ids = Inr kf'" by simp
    moreover have "known_invar reg (kf\<lparr>kfNames := List.insert n (kfNames kf)\<rparr>)"
      using "2.prems"(1) Some by (auto simp: known_invar_def)
    ultimately show ?thesis using "2.IH"(2) [OF n Some] n Some by auto
  qed
qed simp

text \<open>
  C14. A known-failures list that parses expects exactly the registered names its entries give,
  counts each once, and counts every other entry as unknown.
\<close>

theorem ParseKnownFailures_correct:
  assumes "ParseKnownFailures rd reg = Inr kf" and "parseNodeIDs rd = Inr ids"
  shows "kf_expected (Some kf) = (\<lambda>n. n \<in> set (entry_list reg True ids)) \<and>
    kf_len (Some kf) = card (set (entry_list reg True ids)) \<and>
    kf_unknown (Some kf) = length (entry_list reg False ids)"
proof -
  have "add_known reg \<lparr>kfNames = [], kfUnknown = 0\<rparr> ids = Inr kf"
    using assms by (simp add: ParseKnownFailures_def)
  moreover have "known_invar reg \<lparr>kfNames = [], kfUnknown = 0\<rparr>" by (simp add: known_invar_def)
  ultimately have kf: "known_invar reg kf" "set (kfNames kf) = set (entry_list reg True ids)"
      "kfUnknown kf = length (entry_list reg False ids)"
    using add_known_Inr [of reg "\<lparr>kfNames = [], kfUnknown = 0\<rparr>" ids kf] by auto
  then have "length (kfNames kf) = card (set (entry_list reg True ids))"
    by (metis distinct_card known_invar_def)
  with kf show ?thesis by (simp add: kf_expected_def kf_len_def kf_unknown_def fun_eq_iff)
qed

section \<open>Classification\<close>

lemma kf_classify_test [simp]: "resTest (kf_classify k r) = resTest r"
  by (simp add: kf_classify_def split: status.splits)

lemma kf_classify_rest [simp]:
  "resDuration (kf_classify k r) = resDuration r" "resOutput (kf_classify k r) = resOutput r"
  "resSkip (kf_classify k r) = resSkip r"
  by (simp_all add: kf_classify_def split: status.splits)

lemma kf_classify_nil [simp]: "kf_classify None r = r"
  by (simp add: kf_classify_def kf_expected_def)

text \<open>
  C15. The list inverts what is demanded of a listed test: after classification a result of the
  runner fails the run exactly when a listed test passed, or an unlisted one failed or timed out;
  a skipped test never fails it.
\<close>

theorem classify_verdict:
  assumes "raw_status (resStatus r)"
  shows "fails_run (resStatus (kf_classify k r)) \<longleftrightarrow>
    (if kf_expected k (tName (resTest r)) then resStatus r = StatusPassed
     else resStatus r = StatusFailed \<or> resStatus r = StatusTimeout)"
  using assms by (auto simp: kf_classify_def fails_run_def raw_status_def split: status.splits)

text \<open>
  Classifying is idempotent, so classifying a result for the progress line and again for the
  reports gives the same status.
\<close>

theorem classify_idempotent: "kf_classify k (kf_classify k r) = kf_classify k r"
  by (simp add: kf_classify_def split: status.splits)

section \<open>Examples\<close>

definition example_result :: "gostring \<Rightarrow> status \<Rightarrow> nat run_result" where
  "example_result n s =
     \<lparr>resTest = example_test n [], resStatus = s, resDuration = 0, resOutput = [], resSkip = []\<rparr>"

theorem classify_verdict_witness:
  "fails_run (resStatus (kf_classify (Some \<lparr>kfNames = [''a''], kfUnknown = 0\<rparr>) (example_result ''a'' StatusPassed)))"
proof -
  have "raw_status (resStatus (example_result ''a'' StatusPassed))"
    by (simp add: raw_status_def example_result_def)
  from classify_verdict [OF this, of "Some \<lparr>kfNames = [''a''], kfUnknown = 0\<rparr>"] show ?thesis
    by (simp add: kf_expected_def example_result_def)
qed

theorem ParseKnownFailures_correct_witness:
  "\<exists>kf. ParseKnownFailures (text_reader (unlines [NodeID (example_test ''a'' []), ''m::test_z'']))
      \<lparr>byName = [(''a'', example_test ''a'' [''x'']), (''b'', example_test ''b'' [])]\<rparr> = Inr kf \<and>
    kf_len (Some kf) = 1 \<and> kf_unknown (Some kf) = 1"
proof -
  let ?reg = "\<lparr>byName = [(''a'', example_test ''a'' [''x'']), (''b'', example_test ''b'' [])]\<rparr>"
  let ?ids = "[NodeID (example_test ''a'' []), ''m::test_z'']"
  have ids: "parseNodeIDs (text_reader (unlines ?ids)) = Inr ?ids"
  proof (rule parseNodeIDs_lines)
    have "line_safe ''m::test_z''"
      by (simp add: line_safe_def in_byte_range_def byte_def max_scan_token_def)
    then show "\<forall>i \<in> set ?ids. line_safe i" by (simp add: example_line_safe)
  qed
  have names: "nodeIDName (NodeID (example_test ''a'' [])) = Some ''a''" "nodeIDName ''m::test_z'' = Some ''z''"
    by (simp add: nodeIDName_NodeID valid_test_def)
      (simp add: nodeIDName_def str_cut_def has_prefix_def trim_prefix_def)
  have "ParseKnownFailures (text_reader (unlines ?ids)) ?reg = Inr \<lparr>kfNames = [''a''], kfUnknown = 1\<rparr>"
    using ids names by (simp add: ParseKnownFailures_def reg_lookup_def)
  with ParseKnownFailures_correct [OF this ids] names show ?thesis
    by (simp add: reg_lookup_def)
qed

end
