(* ===== verification/Report.thy ===== *)
theory Report
  imports Utf8 Decimal Expecting
begin

text \<open>
  The progress reporter (\<open>internal/cmd/report.go\<close>). A method returns the text it writes: \<open>printf\<close>
  discards what a write to the terminal answers. Durations are nanoseconds; \<open>%.1f\<close> rounds the \<open>float64\<close>
  it is given.
\<close>

section \<open>Durations\<close>

text \<open>\<open>Duration.Round\<close> to seconds; what would exceed the largest duration becomes that one.\<close>

definition round_second :: "nat \<Rightarrow> nat" where
  "round_second d = (let r = d mod ns_second in
     if r + r < ns_second then d - r
     else if d + ns_second - r < 2 ^ 63 then d + ns_second - r else 2 ^ 63 - 1)"

definition duration :: "int \<Rightarrow> gostring" where
  "duration d =
     (if d < 1000000 then ''<1ms''
      else if d < int ns_second then nat_dec (nat d div 1000000) @ ''ms''
      else if d < 60 * int ns_second then fixed1 (Seconds d) @ ''s''
      else duration_string (int (round_second (nat d))))"

section \<open>Painting\<close>

definition esc :: char where "esc = CHR 0x1B"

definition ansi :: "gostring \<Rightarrow> gostring" where
  "ansi code = esc # ''['' @ code @ ''m''"

definition ansiReset :: gostring where "ansiReset = ansi ''0''"
definition ansiBold :: gostring where "ansiBold = ansi ''1''"
definition ansiDim :: gostring where "ansiDim = ansi ''2''"
definition ansiRed :: gostring where "ansiRed = ansi ''31''"
definition ansiGreen :: gostring where "ansiGreen = ansi ''32''"
definition ansiYellow :: gostring where "ansiYellow = ansi ''33''"
definition ansiBlue :: gostring where "ansiBlue = ansi ''34''"
definition ansiGray :: gostring where "ansiGray = ansi ''90''"

text \<open>The symbols, and the middle dot of the separators, in UTF-8.\<close>

definition sym_check :: gostring where "sym_check = [CHR 0xE2, CHR 0x9C, CHR 0x94]"
definition sym_cross :: gostring where "sym_cross = [CHR 0xE2, CHR 0x9C, CHR 0x96]"
definition sym_clock :: gostring where "sym_clock = [CHR 0xE2, CHR 0x8F, CHR 0xB1]"
definition sym_ring :: gostring where "sym_ring = [CHR 0xE2, CHR 0x97, CHR 0x8B]"
definition dot :: gostring where "dot = [CHR 0xC2, CHR 0xB7]"
definition separator :: gostring where "separator = ''  '' @ dot @ ''  ''"
definition nl :: gostring where "nl = [CHR 0x0A]"

record reporter =
  rpColor :: bool
  rpVerbose :: bool
  rpNameWidth :: nat

definition newReporter :: "bool \<Rightarrow> bool \<Rightarrow> 'f gotest list \<Rightarrow> reporter" where
  "newReporter color verbose tests =
     (let width = fold (\<lambda>t w. max w (length (tName t))) tests 0
      in \<lparr>rpColor = color, rpVerbose = verbose, rpNameWidth = min width 60\<rparr>)"

definition paint :: "reporter \<Rightarrow> gostring \<Rightarrow> gostring \<Rightarrow> gostring" where
  "paint r s color = (if \<not> rpColor r \<or> color = [] then s else color @ s @ ansiReset)"

definition report_header :: "reporter \<Rightarrow> 'f gotest list \<Rightarrow> gostring \<Rightarrow> int \<Rightarrow> gostring" where
  "report_header r tests endpoint workers =
     (let mode = (if workers \<le> 1 then ''sequential'' else int_dec workers @ '' workers'') in
      nl @ ''  '' @ paint r ''s3t'' (ansiBold @ ansiBlue) @ ''  '' @
      paint r (nat_dec (length tests) @ '' tests'') ansiBold @ ''  '' @
      paint r (endpoint @ separator @ mode) ansiDim @ nl @ nl)"

fun mark :: "status \<Rightarrow> gostring \<times> gostring" where
  "mark StatusPassed = (sym_check, ansiGreen)"
| "mark StatusFailed = (sym_cross, ansiRed)"
| "mark StatusTimeout = (sym_clock, ansiYellow)"
| "mark StatusSkipped = (sym_ring, ansiGray)"
| "mark StatusExpectedFailure = (sym_check, ansiGray)"
| "mark StatusUnexpectedPass = (''!'', ansiYellow)"

text \<open>\<open>%-*s\<close> pads on the right, by runes.\<close>

definition pad_right :: "nat \<Rightarrow> gostring \<Rightarrow> gostring" where
  "pad_right w s = s @ replicate (w - rune_count s) (CHR '' '')"

definition trim_right_nl :: "gostring \<Rightarrow> gostring" where
  "trim_right_nl s = rev (dropWhile (\<lambda>c. c = CHR 0x0A) (rev s))"

definition indent :: "gostring \<Rightarrow> gostring \<Rightarrow> gostring" where
  "indent s pad = pad @ str_replace_all (trim_right_nl s) nl (nl @ pad)"

definition report_result :: "reporter \<Rightarrow> 'f run_result \<Rightarrow> gostring" where
  "report_result r res =
     (let (symbol, color) = mark (resStatus res);
          failed = (resStatus res = StatusFailed \<or> resStatus res = StatusTimeout \<or>
                    resStatus res = StatusUnexpectedPass) in
      ''  '' @ paint r symbol color @ '' '' @ pad_right (rpNameWidth r) (tName (resTest res)) @ '' '' @
      paint r (duration (resDuration res)) ansiDim @ nl @
      (if resStatus res = StatusSkipped \<and> resSkip res \<noteq> []
       then ''      '' @ paint r (resSkip res) ansiGray @ nl else []) @
      (if resOutput res \<noteq> [] \<and> (rpVerbose r \<or> failed)
       then paint r (indent (resOutput res) ''      '') ansiDim @ nl else []))"

definition report_known :: "reporter \<Rightarrow> known_failures option \<Rightarrow> gostring" where
  "report_known r k =
     (let msg = nat_dec (kf_len k) @ '' expected failures'';
          n = kf_unknown k;
          msg' = (if n > 0 then msg @ separator @ nat_dec n @ '' entries name tests not ported yet'' else msg)
      in ''  '' @ paint r msg' ansiDim @ nl @ nl)"

section \<open>The summary\<close>

definition status_count :: "'f run_result list \<Rightarrow> status \<Rightarrow> nat" where
  "status_count results s = length (filter (\<lambda>res. resStatus res = s) results)"

definition summary_order :: "status list" where
  "summary_order = [StatusPassed, StatusFailed, StatusTimeout, StatusSkipped, StatusExpectedFailure,
     StatusUnexpectedPass]"

definition summary_parts :: "reporter \<Rightarrow> 'f run_result list \<Rightarrow> gostring list" where
  "summary_parts r results =
     map (\<lambda>s. paint r (nat_dec (status_count results s) @ '' '' @ status_string s) (snd (mark s)))
       (filter (\<lambda>s. \<not> (status_count results s = 0 \<and> s \<noteq> StatusPassed)) summary_order)"

definition failure_line :: "reporter \<Rightarrow> 'f run_result \<Rightarrow> gostring" where
  "failure_line r res = (case resStatus res of
       StatusFailed \<Rightarrow> ''    '' @ paint r dot ansiRed @ '' '' @ NodeID (resTest res) @ nl
     | StatusTimeout \<Rightarrow> ''    '' @ paint r dot ansiRed @ '' '' @ NodeID (resTest res) @ nl
     | StatusUnexpectedPass \<Rightarrow> ''    '' @ paint r dot ansiYellow @ '' '' @ NodeID (resTest res) @ '' '' @
         paint r ''(passed, but listed as a known failure: delete its line)'' ansiDim @ nl
     | _ \<Rightarrow> [])"

definition listFailures :: "reporter \<Rightarrow> 'f run_result list \<Rightarrow> gostring" where
  "listFailures r results = ''  '' @ paint r ''failed:'' (ansiBold @ ansiRed) @ nl @
     concat (map (failure_line r) results) @ nl"

text \<open>The text and the error \<open>errNotAllPassed\<close>, by its count.\<close>

definition summary :: "reporter \<Rightarrow> 'f run_result list \<Rightarrow> int \<Rightarrow> gostring \<times> nat option" where
  "summary r results wall =
     (let text = nl @ ''  '' @ str_join (summary_parts r results) (paint r separator ansiDim) @ ''  '' @
            paint r (''in '' @ duration wall) ansiDim @ nl @ nl;
          failed = status_count results StatusFailed + status_count results StatusTimeout +
            status_count results StatusUnexpectedPass in
      if failed > 0 then (text @ listFailures r results, Some failed) else (text, None))"

definition not_all_passed_text :: "nat \<Rightarrow> gostring" where
  "not_all_passed_text n = nat_dec n @ '' tests failed''"

section \<open>Whether to color\<close>

text \<open>
  What \<open>useColor\<close> asks of its surroundings: two environment variables, and the mode of the file
  behind the writer, \<open>None\<close> when the writer is not a file or its \<open>Stat\<close> fails.
\<close>

record color_env =
  ceNoColor :: gostring
  ceTerm :: gostring
  ceCharDevice :: "bool option"

definition useColor :: "gostring \<Rightarrow> color_env \<Rightarrow> bool" where
  "useColor mode env =
     (if mode = ''always'' then True
      else if mode = ''never'' then False
      else if ceNoColor env \<noteq> [] \<or> ceTerm env = ''dumb'' then False
      else (case ceCharDevice env of None \<Rightarrow> False | Some dev \<Rightarrow> dev))"

section \<open>The verdict\<close>

lemma status_count_fails:
  "status_count results StatusFailed + status_count results StatusTimeout + status_count results StatusUnexpectedPass =
    length (filter (\<lambda>res. fails_run (resStatus res)) results)"
  by (induction results) (auto simp: status_count_def fails_run_def)

lemma snd_summary:
  "snd (summary r results wall) =
    (let n = length (filter (\<lambda>res. fails_run (resStatus res)) results) in if n = 0 then None else Some n)"
  using status_count_fails [of results] by (simp add: summary_def Let_def)

lemma failure_line_fails: "failure_line r res = [] \<longleftrightarrow> \<not> fails_run (resStatus res)"
  by (cases "resStatus res") (simp_all add: failure_line_def fails_run_def)

text \<open>
  The summary fails the run exactly when some result fails it, with the number of such results as
  the error's count; it then repeats one line for each of them, in order, and no line for any other.
\<close>

theorem summary_verdict:
  "summary r results wall =
    (let bad = filter (\<lambda>res. fails_run (resStatus res)) results;
         text = nl @ ''  '' @ str_join (summary_parts r results) (paint r separator ansiDim) @ ''  '' @
            paint r (''in '' @ duration wall) ansiDim @ nl @ nl in
     if bad = [] then (text, None)
     else (text @ ''  '' @ paint r ''failed:'' (ansiBold @ ansiRed) @ nl @ concat (map (failure_line r) bad) @ nl,
           Some (length bad)))"
proof -
  have "concat (map (failure_line r) results) =
      concat (map (failure_line r) (filter (\<lambda>res. fails_run (resStatus res)) results))"
    by (induction results) (auto simp: failure_line_fails)
  then show ?thesis
    using status_count_fails [of results] by (simp add: summary_def listFailures_def Let_def)
qed

text \<open>The counts of the summary line add up to the number of results.\<close>

lemma summary_counts: "sum_list (map (status_count results) summary_order) = length results"
proof (induction results)
  case (Cons res results)
  then show ?case by (cases "resStatus res") (simp_all add: status_count_def summary_order_def)
qed (simp add: status_count_def summary_order_def)

section \<open>Color adds nothing but escapes\<close>

text \<open>A terminal that ignores colors: an escape is dropped up to its \<open>m\<close>.\<close>

fun strip_from :: "bool \<Rightarrow> gostring \<Rightarrow> gostring" where
  "strip_from inside [] = []"
| "strip_from True (c # s) = strip_from (c \<noteq> CHR ''m'') s"
| "strip_from False (c # s) = (if c = esc then strip_from True s else c # strip_from False s)"

definition strip :: "gostring \<Rightarrow> gostring" where
  "strip s = strip_from False s"

text \<open>\<open>shows_as s p\<close>: on such a terminal \<open>s\<close> shows as \<open>p\<close>, whatever follows.\<close>

definition shows_as :: "gostring \<Rightarrow> gostring \<Rightarrow> bool" where
  "shows_as s p \<longleftrightarrow> (\<forall>t. strip (s @ t) = p @ strip t)"

definition plain :: "gostring \<Rightarrow> bool" where
  "plain s \<longleftrightarrow> esc \<notin> set s"

lemma shows_as_append: "shows_as s p \<Longrightarrow> shows_as s' p' \<Longrightarrow> shows_as (s @ s') (p @ p')"
  by (simp add: shows_as_def)

lemma shows_as_plain: "plain s \<Longrightarrow> shows_as s s"
proof -
  have "strip_from False (s @ t) = s @ strip_from False t" if "plain s" for t
    using that by (induction s) (auto simp: plain_def)
  then show "plain s \<Longrightarrow> shows_as s s" by (simp add: shows_as_def strip_def)
qed

lemma shows_as_ansi: "CHR ''m'' \<notin> set code \<Longrightarrow> shows_as (ansi code) []"
proof -
  assume "CHR ''m'' \<notin> set code"
  then have "strip_from True (code @ ''m'' @ t) = strip_from False t" for t
    by (induction code) auto
  then show ?thesis by (simp add: shows_as_def strip_def ansi_def)
qed

lemma shows_as_colors:
  "shows_as ansiReset []" "shows_as ansiBold []" "shows_as ansiDim []" "shows_as ansiRed []"
  "shows_as ansiGreen []" "shows_as ansiYellow []" "shows_as ansiBlue []" "shows_as ansiGray []"
  by (simp_all add: ansiReset_def ansiBold_def ansiDim_def ansiRed_def ansiGreen_def ansiYellow_def
      ansiBlue_def ansiGray_def shows_as_ansi)

lemma shows_as_color_pair: "shows_as a [] \<Longrightarrow> shows_as b [] \<Longrightarrow> shows_as (a @ b) []"
  using shows_as_append [of a "[]" b "[]"] by simp

lemma shows_as_paint:
  assumes "plain s" and "shows_as color []"
  shows "shows_as (paint r s color) s"
proof -
  have "shows_as (color @ s @ ansiReset) s"
    using shows_as_append [OF assms(2) shows_as_append [OF shows_as_plain [OF assms(1)] shows_as_colors(1)]]
    by simp
  then show ?thesis using shows_as_plain [OF assms(1)] by (simp add: paint_def)
qed

lemma shows_as_strip: "shows_as s p \<Longrightarrow> strip s = p"
  by (metis append_Nil2 shows_as_def strip_def strip_from.simps(1))

lemma plain_simps [simp]:
  "plain []" "plain (c # s) \<longleftrightarrow> c \<noteq> esc \<and> plain s" "plain (s @ t) \<longleftrightarrow> plain s \<and> plain t"
  by (auto simp: plain_def)

definition monochrome :: "reporter \<Rightarrow> reporter" where
  "monochrome r = r\<lparr>rpColor := False\<rparr>"

lemma paint_monochrome [simp]: "paint (monochrome r) s color = s"
  by (simp add: paint_def monochrome_def)

lemma monochrome_sel [simp]:
  "rpNameWidth (monochrome r) = rpNameWidth r" "rpVerbose (monochrome r) = rpVerbose r"
  by (simp_all add: monochrome_def)

declare esc_def [simp]

lemma plain_digits: "plain (nat_dec n)"
  using nat_dec_digits [of esc n] by (auto simp: plain_def is_digit_ascii_def in_byte_range_def byte_def)

lemma plain_literals [simp]:
  "plain nl" "plain dot" "plain separator" "plain sym_check" "plain sym_cross" "plain sym_clock" "plain sym_ring"
  "plain ''s3t''" "plain ''failed:''" "plain ''  ''" "plain ''    ''" "plain ''      ''" "plain '' ''" "plain ''!''"
  "plain ''(passed, but listed as a known failure: delete its line)''"
  by (simp_all add: nl_def dot_def separator_def sym_check_def sym_cross_def sym_clock_def sym_ring_def)

lemma plain_int_dec: "plain (int_dec n)"
  using plain_digits by (auto simp: int_dec_def)

lemma plain_dur_abs: "plain (dur_abs u)"
proof -
  have "plain ds" if "digits ds" for ds
    using that by (auto simp: plain_def digits_def is_digit_ascii_def in_byte_range_def byte_def)
  then have "plain (dur_frac u n)" for n by (simp add: dur_frac_def Let_def digits_takes pad_zeros_def)
  then show ?thesis by (auto simp: dur_abs_def micro_sign_def plain_digits Let_def)
qed

lemma plain_duration: "plain (duration d)"
  by (auto simp: duration_def fixed1_def duration_string_def plain_dur_abs Let_def plain_digits split: prod.splits)

lemma plain_replace_all: "plain s \<Longrightarrow> plain new \<Longrightarrow> plain (str_replace_all s old new)"
proof (induction s old new rule: str_replace_all.induct)
  case (1 s old new)
  have "plain (drop n s)" for n using "1.prems"(1) by (auto simp: plain_def dest: in_set_dropD)
  moreover have "plain (tl s)" using "1.prems"(1) by (cases s) auto
  moreover have "s \<noteq> [] \<Longrightarrow> hd s \<noteq> esc" using "1.prems"(1) by (cases s) auto
  ultimately show ?case
    using "1.IH" "1.prems"(2) by (subst str_replace_all.simps) auto
qed

lemma plain_indent: "plain s \<Longrightarrow> plain pad \<Longrightarrow> plain (indent s pad)"
proof -
  assume s: "plain s" and pad: "plain pad"
  have "plain (trim_right_nl s)"
    using s set_dropWhileD [of _ _ "rev s"] by (auto simp: plain_def trim_right_nl_def)
  then show ?thesis using pad by (simp add: indent_def plain_replace_all)
qed

lemma plain_join: "plain sep \<Longrightarrow> \<forall>x \<in> set xs. plain x \<Longrightarrow> plain (str_join xs sep)"
  by (auto simp: str_join_def plain_def split: list.splits)

definition plain_test :: "'f gotest \<Rightarrow> bool" where
  "plain_test t \<longleftrightarrow> plain (tName t) \<and> plain (tModule t)"

definition plain_result :: "'f run_result \<Rightarrow> bool" where
  "plain_result res \<longleftrightarrow> plain_test (resTest res) \<and> plain (resOutput res) \<and> plain (resSkip res)"

lemmas shows_as_intros = shows_as_append shows_as_paint shows_as_plain shows_as_color_pair shows_as_colors

lemma header_shows:
  "plain endpoint \<Longrightarrow> shows_as (report_header r tests endpoint workers) (report_header (monochrome r) tests endpoint workers)"
  unfolding report_header_def Let_def paint_monochrome
  by (intro shows_as_intros) (simp_all add: plain_digits plain_int_dec)

lemma mark_colors: "shows_as (snd (mark s)) []"
  by (cases s) (simp_all add: shows_as_colors)

lemma mark_symbols: "plain (fst (mark s))"
  by (cases s) (simp_all del: esc_def, simp)

lemma plain_status: "plain (status_string s)"
  by (cases s) simp_all

lemma result_shows:
  assumes "plain_result res"
  shows "shows_as (report_result r res) (report_result (monochrome r) res)"
proof -
  have p: "plain (tName (resTest res))" "plain (resOutput res)" "plain (resSkip res)"
    using assms by (simp_all add: plain_result_def plain_test_def)
  have pad: "plain (pad_right n (tName (resTest res)))" for n
    using p(1) by (simp add: pad_right_def plain_def)
  have opt: "shows_as (if b then x else []) (if b then y else [])" if "shows_as x y" for b x y
    using that shows_as_plain [of "[]"] by simp
  show ?thesis
    unfolding report_result_def Let_def paint_monochrome monochrome_sel prod.case_eq_if
    by (intro shows_as_intros opt plain_indent) (simp_all add: p pad plain_duration mark_colors mark_symbols shows_as_colors)
qed

lemma known_shows: "shows_as (report_known r k) (report_known (monochrome r) k)"
  unfolding report_known_def Let_def paint_monochrome
  by (intro shows_as_intros) (simp_all add: plain_digits)

lemma concat_shows:
  "\<forall>x \<in> set xs. shows_as (f x) (g x) \<Longrightarrow> shows_as (concat (map f xs)) (concat (map g xs))"
  using shows_as_plain [of "[]"] by (induction xs) (auto intro: shows_as_append)

lemma join_shows:
  assumes "shows_as sep sep'" and "\<forall>x \<in> set xs. shows_as (f x) (g x)"
  shows "shows_as (str_join (map f xs) sep) (str_join (map g xs) sep')"
proof (cases xs)
  case (Cons x ys)
  have "shows_as (concat (map (\<lambda>z. sep @ f z) ys)) (concat (map (\<lambda>z. sep' @ g z) ys))"
    using assms Cons by (intro concat_shows) (auto intro: shows_as_append)
  then show ?thesis using assms Cons by (simp add: str_join_def comp_def shows_as_append)
qed (simp add: shows_as_plain)

lemma failure_line_shows:
  assumes "plain_test (resTest res)"
  shows "shows_as (failure_line r res) (failure_line (monochrome r) res)"
proof -
  have n: "plain (NodeID (resTest res))" using assms by (simp add: NodeID_def plain_test_def)
  show ?thesis
    unfolding failure_line_def paint_monochrome
    by (cases "resStatus res"; simp only: status.case; intro shows_as_intros)
      (simp_all add: n)
qed

lemma summary_shows:
  assumes "\<forall>res \<in> set results. plain_test (resTest res)"
  shows "shows_as (fst (summary r results wall)) (fst (summary (monochrome r) results wall))"
proof -
  have parts: "shows_as (str_join (summary_parts r results) (paint r separator ansiDim))
      (str_join (summary_parts (monochrome r) results) (paint (monochrome r) separator ansiDim))"
    unfolding summary_parts_def paint_monochrome
    by (intro join_shows ballI shows_as_paint mark_colors)
      (simp_all add: shows_as_colors plain_digits plain_status)
  have fails: "shows_as (listFailures r results) (listFailures (monochrome r) results)"
    unfolding listFailures_def paint_monochrome
    using assms by (intro shows_as_intros concat_shows ballI failure_line_shows) simp_all
  have line: "shows_as
      (nl @ ''  '' @ str_join (summary_parts r results) (paint r separator ansiDim) @ ''  '' @
         paint r (''in '' @ duration wall) ansiDim @ nl @ nl)
      (nl @ ''  '' @ str_join (summary_parts (monochrome r) results) (paint (monochrome r) separator ansiDim) @ ''  '' @
         paint (monochrome r) (''in '' @ duration wall) ansiDim @ nl @ nl)"
    unfolding paint_monochrome [of r "''in '' @ duration wall"]
    by (intro shows_as_append parts shows_as_paint shows_as_plain shows_as_colors) (simp_all add: plain_duration)
  from line fails shows_as_append [OF line fails] show ?thesis
    by (simp add: summary_def Let_def)
qed

text \<open>What a run that is reported to its end prints, one progress line per result.\<close>

definition run_text :: "reporter \<Rightarrow> 'f gotest list \<Rightarrow> gostring \<Rightarrow> int \<Rightarrow> known_failures option \<Rightarrow>
    'f run_result list \<Rightarrow> 'f run_result list \<Rightarrow> int \<Rightarrow> gostring" where
  "run_text r tests endpoint workers k observed results wall =
     report_header r tests endpoint workers @ (if k = None then [] else report_known r k) @
     concat (map (report_result r) observed) @ fst (summary r results wall)"

text \<open>
  Color only adds escapes: on a terminal that drops them, everything a run prints reads as the same
  run prints with color off, provided no name, output, skip reason or endpoint has an escape of its own.
\<close>

theorem color_only_escapes:
  assumes "plain endpoint" and "\<forall>res \<in> set observed \<union> set results. plain_result res"
  shows "strip (run_text r tests endpoint workers k observed results wall) =
    run_text (r\<lparr>rpColor := False\<rparr>) tests endpoint workers k observed results wall"
proof (rule shows_as_strip)
  have known: "shows_as (if k = None then [] else report_known r k) (if k = None then [] else report_known (monochrome r) k)"
    using known_shows [of r k] shows_as_plain [of "[]"] by simp
  have "shows_as (concat (map (report_result r) observed)) (concat (map (report_result (monochrome r)) observed))"
    using assms(2) by (intro concat_shows ballI result_shows) simp
  moreover have "shows_as (fst (summary r results wall)) (fst (summary (monochrome r) results wall))"
    using assms(2) by (intro summary_shows ballI) (simp add: plain_result_def)
  ultimately have "shows_as (run_text r tests endpoint workers k observed results wall)
      (run_text (monochrome r) tests endpoint workers k observed results wall)"
    unfolding run_text_def using known header_shows [OF assms(1)] by (intro shows_as_append)
  then show "shows_as (run_text r tests endpoint workers k observed results wall)
      (run_text (r\<lparr>rpColor := False\<rparr>) tests endpoint workers k observed results wall)"
    by (simp add: monochrome_def)
qed

theorem color_only_escapes_witness:
  "strip (run_text \<lparr>rpColor = True, rpVerbose = True, rpNameWidth = 4\<rparr> [example_test ''a'' []] ''http://h:1'' 1 None
      [example_result ''a'' StatusFailed] [example_result ''a'' StatusFailed] 5) =
    run_text \<lparr>rpColor = False, rpVerbose = True, rpNameWidth = 4\<rparr> [example_test ''a'' []] ''http://h:1'' 1 None
      [example_result ''a'' StatusFailed] [example_result ''a'' StatusFailed] 5"
proof -
  let ?res = "example_result ''a'' StatusFailed"
  have "plain ''http://h:1''" by simp
  moreover have "\<forall>res \<in> set [?res] \<union> set [?res]. plain_result res"
    by (simp add: plain_result_def plain_test_def example_result_def ModuleS3_def)
  ultimately show ?thesis
    using color_only_escapes [where r = "\<lparr>rpColor = True, rpVerbose = True, rpNameWidth = 4\<rparr>"] by fastforce
qed

section \<open>Columns\<close>

text \<open>The names of a run are padded to one width, so the durations line up.\<close>

lemma fold_max_ge: "w \<le> fold (\<lambda>t w. max w (length (tName t))) ts w"
proof (induction ts arbitrary: w)
  case (Cons t ts)
  have "w \<le> max w (length (tName t))" by simp
  also have "\<dots> \<le> fold (\<lambda>t w. max w (length (tName t))) ts (max w (length (tName t)))" by (rule Cons.IH)
  finally show ?case by simp
qed simp

lemma fold_max_member: "t \<in> set ts \<Longrightarrow> length (tName t) \<le> fold (\<lambda>t w. max w (length (tName t))) ts w"
proof (induction ts arbitrary: w)
  case (Cons u ts)
  have "length (tName u) \<le> max w (length (tName u))" by simp
  also have "\<dots> \<le> fold (\<lambda>t w. max w (length (tName t))) ts (max w (length (tName u)))" by (rule fold_max_ge)
  finally show ?case using Cons by auto
qed simp

lemma name_width:
  assumes "t \<in> set tests" and "length (tName t) \<le> 60"
  shows "length (tName t) \<le> rpNameWidth (newReporter color verbose tests)"
  using fold_max_member [OF assms(1)] assms(2) by (simp add: newReporter_def Let_def)

text \<open>A padded ASCII name is as many runes wide as the column, unless it is wider.\<close>

lemma pad_right_width: "ascii s \<Longrightarrow> rune_count (pad_right w s) = max w (length s)"
proof -
  assume "ascii s"
  then have "ascii (pad_right w s)" by (auto simp: ascii_def pad_right_def byte_def)
  then show ?thesis using \<open>ascii s\<close> by (simp add: rune_count_ascii) (simp add: pad_right_def rune_count_ascii)
qed

end
