(* ===== verification/Export.thy ===== *)
theory Export
  imports Json Xml Report
begin

text \<open>
  The machine-readable reports (\<open>internal/cmd/export.go\<close>). A report goes through three calls of the
  file system (create, write, close), each of which may fail, a write after some of its bytes. Both reports
  are modelled to the byte, with the encoders of theories Json and Xml and the numbers of Decimal.
\<close>

section \<open>Files\<close>

text \<open>\<open>ioWrite i\<close> is how the i-th write ends: \<open>None\<close> when all of it is written, else how much was.\<close>

record report_io =
  ioCreate :: bool
  ioWrite :: "nat \<Rightarrow> nat option"
  ioClose :: bool

fun write_all :: "(nat \<Rightarrow> nat option) \<Rightarrow> nat \<Rightarrow> gostring list \<Rightarrow> gostring \<times> nat option" where
  "write_all w i [] = ([], None)"
| "write_all w i (x # xs) = (case w i of
       Some k \<Rightarrow> (take k x, Some i)
     | None \<Rightarrow> (case write_all w (Suc i) xs of (file, err) \<Rightarrow> (x @ file, err)))"

datatype export_error = CreateJSON | WriteJSON | CloseJSON | CreateJUnit | WriteJUnit | EncodeJUnit | CloseJUnit

section \<open>JSON\<close>

record jsonResult =
  jrNodeID :: gostring
  jrName :: gostring
  jrModule :: gostring
  jrMarkers :: "gostring list"
  jrStatus :: gostring
  jrDuration :: f64
  jrOutput :: gostring
  jrSkip :: gostring

definition json_result :: "'f run_result \<Rightarrow> jsonResult" where
  "json_result res = \<lparr>jrNodeID = NodeID (resTest res), jrName = tName (resTest res),
     jrModule = tModule (resTest res), jrMarkers = tMarkers (resTest res),
     jrStatus = status_string (resStatus res), jrDuration = Seconds (resDuration res),
     jrOutput = resOutput res, jrSkip = resSkip res\<rparr>"

text \<open>The fields under their tags, those marked \<open>omitempty\<close> when they are not empty.\<close>

definition json_fields :: "jsonResult \<Rightarrow> (gostring \<times> jvalue) list" where
  "json_fields r =
     [(''node_id'', JStr (jrNodeID r)), (''name'', JStr (jrName r)), (''module'', JStr (jrModule r))] @
     (if jrMarkers r = [] then [] else [(''markers'', JArr (jrMarkers r))]) @
     [(''status'', JStr (jrStatus r)), (''duration_seconds'', JNum (json_number (jrDuration r)))] @
     (if jrOutput r = [] then [] else [(''output'', JStr (jrOutput r))]) @
     (if jrSkip r = [] then [] else [(''skip_reason'', JStr (jrSkip r))])"

definition json_line :: "'f run_result \<Rightarrow> gostring" where
  "json_line res = json_object (json_fields (json_result res)) @ nl"

definition writeJSON :: "report_io \<Rightarrow> 'f run_result list \<Rightarrow> gostring option \<times> export_error option" where
  "writeJSON io results =
     (if \<not> ioCreate io then (None, Some CreateJSON)
      else (case write_all (ioWrite io) 0 (map json_line results) of
          (file, Some _) \<Rightarrow> (Some file, Some WriteJSON)
        | (file, None) \<Rightarrow> (Some file, if ioClose io then None else Some CloseJSON)))"

section \<open>JUnit\<close>

record junitFailure =
  jfMessage :: gostring
  jfBody :: gostring

record junitSkipped =
  jkMessage :: gostring

record junitCase =
  jcName :: gostring
  jcClassname :: gostring
  jcTime :: f64
  jcFailure :: "junitFailure option"
  jcSkipped :: "junitSkipped option"

record junitSuites =
  jsName :: gostring
  jsTests :: nat
  jsFailures :: nat
  jsSkipped :: nat
  jsTime :: f64
  jsSuites :: "junitCase list"

definition junit_add :: "junitSuites \<Rightarrow> 'f run_result \<Rightarrow> junitSuites" where
  "junit_add report res =
     (let c = \<lparr>jcName = ''test_'' @ tName (resTest res), jcClassname = tModule (resTest res),
               jcTime = Seconds (resDuration res), jcFailure = None, jcSkipped = None\<rparr>;
          (c', report') = (case resStatus res of
             StatusFailed \<Rightarrow> (c\<lparr>jcFailure := Some \<lparr>jfMessage = status_string (resStatus res), jfBody = resOutput res\<rparr>\<rparr>,
                              report\<lparr>jsFailures := jsFailures report + 1\<rparr>)
           | StatusTimeout \<Rightarrow> (c\<lparr>jcFailure := Some \<lparr>jfMessage = status_string (resStatus res), jfBody = resOutput res\<rparr>\<rparr>,
                              report\<lparr>jsFailures := jsFailures report + 1\<rparr>)
           | StatusSkipped \<Rightarrow> (c\<lparr>jcSkipped := Some \<lparr>jkMessage = resSkip res\<rparr>\<rparr>, report\<lparr>jsSkipped := jsSkipped report + 1\<rparr>)
           | _ \<Rightarrow> (c, report))
      in report'\<lparr>jsTests := jsTests report' + 1, jsSuites := jsSuites report' @ [c']\<rparr>)"

definition junit_report :: "'f run_result list \<Rightarrow> int \<Rightarrow> junitSuites" where
  "junit_report results wall = foldl junit_add
     \<lparr>jsName = ''s3t'', jsTests = 0, jsFailures = 0, jsSkipped = 0, jsTime = Seconds wall, jsSuites = []\<rparr> results"

definition xml_header :: gostring where
  "xml_header = ''<?xml version='' @ [quote_mark] @ ''1.0'' @ [quote_mark] @ '' encoding='' @ [quote_mark] @
     ''UTF-8'' @ [quote_mark] @ ''?>'' @ nl"

text \<open>The document the struct tags describe. The parent \<open>testsuite\<close> is written also around no case.\<close>

definition junit_case_xml :: "junitCase \<Rightarrow> xml" where
  "junit_case_xml c = Elem ''testcase''
     [(''name'', jcName c), (''classname'', jcClassname c), (''time'', xml_number (jcTime c))] []
     ((case jcFailure c of None \<Rightarrow> [] | Some f \<Rightarrow> [Elem ''failure'' [(''message'', jfMessage f)] (jfBody f) []]) @
      (case jcSkipped c of None \<Rightarrow> [] | Some k \<Rightarrow> [Elem ''skipped'' [(''message'', jkMessage k)] [] []]))"

definition junit_xml :: "junitSuites \<Rightarrow> xml" where
  "junit_xml report = Elem ''testsuites''
     [(''name'', jsName report), (''tests'', nat_dec (jsTests report)), (''failures'', nat_dec (jsFailures report)),
      (''skipped'', nat_dec (jsSkipped report)), (''time'', xml_number (jsTime report))] []
     [Elem ''testsuite'' [] [] (map junit_case_xml (jsSuites report))]"

definition writeJUnit :: "report_io \<Rightarrow> 'f run_result list \<Rightarrow> int \<Rightarrow>
    gostring option \<times> export_error option" where
  "writeJUnit io results wall =
     (let report = junit_report results wall in
      if \<not> ioCreate io then (None, Some CreateJUnit)
      else (case write_all (ioWrite io) 0 [xml_header, xml_text 0 (junit_xml report)] of
          (file, Some i) \<Rightarrow> (Some file, Some (if i = 0 then WriteJUnit else EncodeJUnit))
        | (file, None) \<Rightarrow> (Some file, if ioClose io then None else Some CloseJUnit)))"

section \<open>A truncated report\<close>

text \<open>The lines of a file that are complete, without their newlines.\<close>

fun complete_from :: "gostring \<Rightarrow> gostring \<Rightarrow> gostring list" where
  "complete_from acc [] = []"
| "complete_from acc (c # s) =
     (if c = CHR 0x0A then acc # complete_from [] s else complete_from (acc @ [c]) s)"

definition complete_lines :: "gostring \<Rightarrow> gostring list" where
  "complete_lines s = complete_from [] s"

lemma complete_from_skip: "no_newline l \<Longrightarrow> complete_from acc (l @ s) = complete_from (acc @ l) s"
  by (induction l arbitrary: acc) auto

lemma complete_from_line: "no_newline l \<Longrightarrow> complete_lines (l @ nl @ s) = l # complete_lines s"
  by (simp add: complete_lines_def complete_from_skip nl_def)

lemma complete_lines_partial: "no_newline l \<Longrightarrow> complete_lines (take k (l @ nl)) = (if length l < k then [l] else [])"
proof (cases "length l < k")
  case True
  assume l: "no_newline l"
  have "take k (l @ nl) = l @ nl @ []" using True by (simp add: nl_def)
  then show ?thesis using True complete_from_line [OF l, of "[]"] by (simp add: complete_lines_def)
next
  case False
  assume "no_newline l"
  then have "no_newline (take k l)" by (auto simp: no_newline_def dest: in_set_takeD)
  then show ?thesis using False complete_from_skip [of "take k l" "[]" "[]"] by (simp add: complete_lines_def)
qed

lemma complete_lines_write_all:
  assumes "\<forall>x \<in> set xs. no_newline x" and "write_all w i (map (\<lambda>x. x @ nl) xs) = (fl, err)"
  shows "\<exists>n \<le> length xs. complete_lines fl = take n xs \<and> (err = None \<longrightarrow> n = length xs)"
  using assms
proof (induction xs arbitrary: i fl err)
  case Nil
  then show ?case by (simp add: complete_lines_def)
next
  case (Cons x xs)
  have x: "no_newline x" using Cons.prems(1) by simp
  show ?case
  proof (cases "w i")
    case (Some k)
    then have "fl = take k (x @ nl)" "err = Some i" using Cons.prems(2) by auto
    then show ?thesis using complete_lines_partial [OF x, of k]
      by (intro exI [of _ "if length x < k then 1 else 0"]) simp
  next
    case None
    obtain f e where f: "write_all w (Suc i) (map (\<lambda>x. x @ nl) xs) = (f, e)"
      by (cases "write_all w (Suc i) (map (\<lambda>x. x @ nl) xs)")
    then have fl: "fl = x @ nl @ f" "err = e" using Cons.prems(2) None by auto
    from Cons.IH [OF _ f] Cons.prems(1) obtain n where
      "n \<le> length xs" "complete_lines f = take n xs" "e = None \<longrightarrow> n = length xs" by auto
    then show ?thesis using fl complete_from_line [OF x, of f]
      by (intro exI [of _ "Suc n"]) simp
  qed
qed

text \<open>What a reader gets from the fields of a result.\<close>

definition read_back :: "(gostring \<times> jvalue) list \<Rightarrow> (gostring \<times> jvalue) list" where
  "read_back fs = map (\<lambda>(k, v). (utf8_clean k, jvalue_clean v)) fs"

lemma numeric_json: "list_all numeric t \<Longrightarrow> list_all number_char t"
  by (auto simp: list_all_iff numeric_def number_char_def)

text \<open>A duration that \<open>time.Duration\<close> can hold.\<close>

definition duration_ok :: "'f run_result \<Rightarrow> bool" where
  "duration_ok res \<longleftrightarrow> resDuration res < 2 ^ 63"

lemma json_fields_ok:
  assumes "duration_ok res"
  shows "list_all (\<lambda>(k, v). jvalue_ok v) (json_fields (json_result res))" "json_fields (json_result res) \<noteq> []"
  using numeric_number(1) [OF normal_Seconds [of "resDuration res"]] assms
  by (simp_all add: json_fields_def json_result_def duration_ok_def numeric_json)

lemma utf8_clean_ascii: "ascii s \<Longrightarrow> utf8_clean s = s"
  by (simp add: utf8_clean_valid valid_utf8_ascii)

text \<open>A result whose texts are UTF-8 is read back as it is.\<close>

definition valid_result :: "'f run_result \<Rightarrow> bool" where
  "valid_result res \<longleftrightarrow> duration_ok res \<and> valid_utf8 (NodeID (resTest res)) \<and> valid_utf8 (tName (resTest res)) \<and>
     valid_utf8 (tModule (resTest res)) \<and> (\<forall>m \<in> set (tMarkers (resTest res)). valid_utf8 m) \<and>
     valid_utf8 (resOutput res) \<and> valid_utf8 (resSkip res)"

lemma read_back_valid:
  assumes "valid_result res"
  shows "read_back (json_fields (json_result res)) = json_fields (json_result res)"
proof -
  have names: "utf8_clean n = n" if "n \<in> {''node_id'', ''name'', ''module'', ''markers'', ''status'',
      ''duration_seconds'', ''output'', ''skip_reason''}" for n
    using that by (elim insertE) (simp_all add: utf8_clean_ascii ascii_def byte_def)
  have st: "utf8_clean (status_string s) = status_string s" for s
    by (cases s) (simp_all add: utf8_clean_ascii ascii_def byte_def)
  have "map utf8_clean (tMarkers (resTest res)) = tMarkers (resTest res)"
    using assms by (intro map_idI) (simp add: valid_result_def utf8_clean_valid)
  then show ?thesis
    using assms by (simp add: read_back_def json_fields_def json_result_def names st valid_result_def utf8_clean_valid)
qed

text \<open>
  C37. Whatever the file system does to the JSON report, each complete line of the file it leaves reads
  back as the fields of one result: the lines are the results of the run from the first on, in order,
  with texts that are UTF-8 unchanged; all of them are there when no error is returned; and the number
  of a duration reads back as the \<open>float64\<close> of its seconds.
\<close>

theorem json_report_readable:
  assumes "\<forall>res \<in> set results. valid_result res" and "writeJSON io results = (Some out, err)"
  shows "\<exists>n \<le> length results.
    map read_object (complete_lines out) =
      map (\<lambda>res. Some (json_fields (json_result res))) (take n results) \<and>
    (err = None \<longrightarrow> n = length results) \<and>
    (\<forall>res \<in> set results. \<exists>t. map_of (json_fields (json_result res)) ''duration_seconds'' = Some (JNum t) \<and>
      read_number t = Seconds (resDuration res))"
proof -
  let ?obj = "\<lambda>res. json_object (json_fields (json_result res))"
  have lines: "map json_line results = map (\<lambda>x. x @ nl) (map ?obj results)"
    by (simp add: json_line_def)
  obtain e where "write_all (ioWrite io) 0 (map json_line results) = (out, e)"
      and e: "err = None \<longrightarrow> e = None"
    using assms(2) by (auto simp: writeJSON_def split: if_splits prod.splits option.splits)
  then have w: "write_all (ioWrite io) 0 (map (\<lambda>x. x @ nl) (map ?obj results)) = (out, e)"
    by (simp only: lines)
  have "\<forall>x \<in> set (map ?obj results). no_newline x"
    using json_fields_ok(1) assms(1) by (auto simp: valid_result_def intro!: no_newline_object)
  from complete_lines_write_all [OF this w] obtain n where n: "n \<le> length results"
      "complete_lines out = take n (map ?obj results)" "e = None \<longrightarrow> n = length results" by auto
  have "read_object (?obj res) = Some (json_fields (json_result res))" if "res \<in> set (take n results)" for res
  proof -
    have v: "valid_result res" using assms(1) that in_set_takeD by fast
    then have "duration_ok res" by (simp add: valid_result_def)
    from read_object_json [OF json_fields_ok(2) [OF this] json_fields_ok(1) [OF this]] show ?thesis
      using read_back_valid [OF v] by (simp add: read_back_def)
  qed
  then have "map read_object (complete_lines out) =
      map (\<lambda>res. Some (json_fields (json_result res))) (take n results)"
    using n(2) by (simp add: take_map)
  moreover have "\<exists>t. map_of (json_fields (json_result res)) ''duration_seconds'' = Some (JNum t) \<and>
      read_number t = Seconds (resDuration res)" if "res \<in> set results" for res
  proof -
    have "resDuration res < 2 ^ 63" using assms(1) that by (simp add: valid_result_def duration_ok_def)
    then show ?thesis using seconds_read_back by (simp add: json_fields_def json_result_def)
  qed
  ultimately show ?thesis using n e by blast
qed

text \<open>A file system that fails in the second line.\<close>

theorem json_report_readable_witness:
  "\<exists>out. writeJSON \<lparr>ioCreate = True, ioWrite = (\<lambda>i. if i = 1 then Some 7 else None), ioClose = True\<rparr>
      [example_result ''a'' StatusPassed, example_result ''b'' StatusFailed] = (Some out, Some WriteJSON) \<and>
    (\<exists>n \<le> 2. map read_object (complete_lines out) =
      map (\<lambda>res. Some (json_fields (json_result res)))
        (take n [example_result ''a'' StatusPassed, example_result ''b'' StatusFailed]))"
proof -
  let ?io = "\<lparr>ioCreate = True, ioWrite = (\<lambda>i. if i = 1 then Some 7 else None), ioClose = True\<rparr>"
  let ?rs = "[example_result ''a'' StatusPassed, example_result ''b'' StatusFailed]"
  have "valid_result (example_result n s)" if "ascii n" for n s
    using that by (auto simp: valid_result_def duration_ok_def example_result_def NodeID_def ModuleS3_def ascii_def byte_def
        intro!: valid_utf8_ascii)
  then have valid: "\<forall>res \<in> set ?rs. valid_result res" by (simp add: ascii_def byte_def)
  have "\<exists>out. writeJSON ?io ?rs = (Some out, Some WriteJSON)"
    by (simp add: writeJSON_def)
  then obtain out where w: "writeJSON ?io ?rs = (Some out, Some WriteJSON)" ..
  from json_report_readable [OF valid w] obtain n where "n \<le> length ?rs"
      "map read_object (complete_lines out) = map (\<lambda>res. Some (json_fields (json_result res))) (take n ?rs)"
    by blast
  then show ?thesis using w by (intro exI [of _ out] conjI exI [of _ n]) simp_all
qed

section \<open>What JUnit says\<close>

text \<open>The report as a value: cases in order, failures and skips in the cases and in the totals.\<close>

definition junit_failed :: "'f run_result \<Rightarrow> bool" where
  "junit_failed res \<longleftrightarrow> resStatus res = StatusFailed \<or> resStatus res = StatusTimeout"

definition junit_case :: "'f run_result \<Rightarrow> junitCase" where
  "junit_case res =
     \<lparr>jcName = ''test_'' @ tName (resTest res), jcClassname = tModule (resTest res), jcTime = Seconds (resDuration res),
      jcFailure = (if junit_failed res
        then Some \<lparr>jfMessage = status_string (resStatus res), jfBody = resOutput res\<rparr> else None),
      jcSkipped = (if resStatus res = StatusSkipped then Some \<lparr>jkMessage = resSkip res\<rparr> else None)\<rparr>"

lemma junit_report_eq:
  "junit_report results wall =
    \<lparr>jsName = ''s3t'', jsTests = length results, jsFailures = length (filter junit_failed results),
     jsSkipped = length (filter (\<lambda>res. resStatus res = StatusSkipped) results), jsTime = Seconds wall,
     jsSuites = map junit_case results\<rparr>"
proof (induction results rule: rev_induct)
  case (snoc res results)
  then show ?case
    by (cases "resStatus res") (simp_all add: junit_report_def junit_add_def junit_case_def junit_failed_def Let_def)
qed (simp add: junit_report_def)

text \<open>
  What a CI system gets from the document: the totals, and for each case the node ID that class name and
  name make up, what became of the test, and its duration.
\<close>

datatype ci_verdict = CiOk | CiFailure gostring gostring | CiSkipped gostring

definition attr :: "(gostring \<times> gostring) list \<Rightarrow> gostring \<Rightarrow> gostring" where
  "attr as n = (case map_of as n of None \<Rightarrow> [] | Some v \<Rightarrow> v)"

fun ci_verdict_of :: "xml list \<Rightarrow> ci_verdict" where
  "ci_verdict_of [] = CiOk"
| "ci_verdict_of (Elem n as t cs # xs) =
     (if n = ''failure'' then CiFailure (attr as ''message'') t
      else if n = ''skipped'' then CiSkipped (attr as ''message'')
      else ci_verdict_of xs)"

fun ci_case :: "xml \<Rightarrow> gostring \<times> ci_verdict \<times> f64" where
  "ci_case (Elem n as t cs) =
     (attr as ''classname'' @ ''::'' @ attr as ''name'', ci_verdict_of cs, read_number (attr as ''time''))"

fun ci_cases :: "xml \<Rightarrow> (gostring \<times> ci_verdict \<times> f64) list" where
  "ci_cases (Elem n as t [Elem m bs u cs]) = map ci_case cs"
| "ci_cases x = []"

fun ci_totals :: "xml \<Rightarrow> nat \<times> nat \<times> nat" where
  "ci_totals (Elem n as t cs) =
     (dec_value (attr as ''tests''), dec_value (attr as ''failures''), dec_value (attr as ''skipped''))"

definition read_junit :: "gostring \<Rightarrow> xml option" where
  "read_junit s = (case strip_prefix xml_header s of None \<Rightarrow> None | Some t \<Rightarrow> read_xml t)"

definition ci_expected :: "'f run_result \<Rightarrow> gostring \<times> ci_verdict \<times> f64" where
  "ci_expected res = (NodeID (resTest res),
     (if junit_failed res then CiFailure (status_string (resStatus res)) (xml_clean (resOutput res))
      else if resStatus res = StatusSkipped then CiSkipped (xml_clean (resSkip res)) else CiOk),
     Seconds (resDuration res))"

lemma wf_junit: "wf_xml (junit_xml report)"
  by (auto simp: junit_xml_def junit_case_xml_def names_ok_def name_char_def is_lower_ascii_def in_byte_range_def byte_def
      split: option.splits)

lemma numeric_plain: "list_all numeric s \<Longrightarrow> xml_clean s = s"
  by (intro xml_clean_plain)
    (auto simp: xml_plain_def list_all_iff numeric_def is_digit_ascii_def in_byte_range_def byte_def)

lemma clean_numbers [simp]: "xml_clean (nat_dec n) = nat_dec n"
  by (intro numeric_plain numeric_digits) simp

lemma clean_status [simp]: "xml_clean (status_string s) = status_string s"
  by (cases s) (simp_all add: xml_clean_plain xml_plain_def byte_def)

lemma xml_plain_append [simp]: "xml_plain (s @ t) \<longleftrightarrow> xml_plain s \<and> xml_plain t"
  by (auto simp: xml_plain_def)

definition junit_readable :: "'f run_result \<Rightarrow> bool" where
  "junit_readable res \<longleftrightarrow> duration_ok res \<and> xml_plain (NodeID (resTest res))"

lemma ci_case_written:
  assumes "junit_readable res"
  shows "ci_case (clean_xml (junit_case_xml (junit_case res))) = ci_expected res"
proof -
  have n: "xml_clean (tModule (resTest res)) = tModule (resTest res)"
      "xml_clean (''test_'' @ tName (resTest res)) = ''test_'' @ tName (resTest res)"
    using assms by (auto simp: junit_readable_def NodeID_def xml_plain_def intro!: xml_clean_plain)
  have d: "normal (Seconds (resDuration res))"
    using assms by (intro normal_Seconds) (simp add: junit_readable_def duration_ok_def)
  have x: "xml_clean (xml_number (Seconds (resDuration res))) = xml_number (Seconds (resDuration res))"
    using numeric_number(2) [OF d] numeric_plain by blast
  show ?thesis
    using n x xml_number_reads [OF d]
    by (simp add: junit_case_xml_def junit_case_def ci_expected_def clean_attrs_def attr_def NodeID_def junit_failed_def)
qed

text \<open>
  C38. The JUnit report of a run reads back, as the XML it is: when \<open>writeJUnit\<close> returns no error, the file
  has one case per result, in order, with the node ID the result had, the failure of a failed or
  timed-out test with its output, the reason of a skipped one, and its duration; and the totals count
  them. Only characters XML has no place for are replaced, in outputs and reasons.
\<close>

theorem junit_report_readable:
  assumes "writeJUnit io results wall = (Some out, None)" and "\<forall>res \<in> set results. junit_readable res"
  shows "\<exists>doc. read_junit out = Some doc \<and> ci_cases doc = map ci_expected results \<and>
    ci_totals doc = (length results, length (filter junit_failed results),
      length (filter (\<lambda>res. resStatus res = StatusSkipped) results))"
proof -
  let ?x = "junit_xml (junit_report results wall)"
  have "out = xml_header @ xml_text 0 ?x"
    using assms(1) by (auto simp: writeJUnit_def Let_def split: if_splits option.splits prod.splits)
  then have "read_junit out = read_xml (xml_text 0 ?x)" by (simp add: read_junit_def strip_prefix_def)
  then have "read_junit out = Some (clean_xml ?x)" by (simp only: read_xml_written [OF wf_junit])
  moreover have "ci_cases (clean_xml ?x) = map ci_expected results"
    using assms(2) by (auto simp: junit_xml_def junit_report_eq intro!: ci_case_written)
  moreover have "ci_totals (clean_xml ?x) = (length results, length (filter junit_failed results),
      length (filter (\<lambda>res. resStatus res = StatusSkipped) results))"
    by (simp add: junit_xml_def junit_report_eq clean_attrs_def attr_def)
  ultimately show ?thesis by blast
qed

theorem junit_report_readable_witness:
  "\<exists>out doc. writeJUnit \<lparr>ioCreate = True, ioWrite = (\<lambda>_. None), ioClose = True\<rparr>
      [example_result ''a'' StatusPassed, example_result ''b'' StatusFailed] 5 = (Some out, None) \<and>
    read_junit out = Some doc \<and> ci_totals doc = (2, 1, 0)"
proof -
  let ?rs = "[example_result ''a'' StatusPassed, example_result ''b'' StatusFailed]"
  obtain out where w: "writeJUnit \<lparr>ioCreate = True, ioWrite = (\<lambda>_. None), ioClose = True\<rparr> ?rs 5 = (Some out, None)"
    by (simp add: writeJUnit_def)
  have "\<forall>res \<in> set ?rs. junit_readable res"
    by (simp add: junit_readable_def duration_ok_def example_result_def NodeID_def ModuleS3_def xml_plain_def byte_def)
  from junit_report_readable [OF w this] obtain doc where "read_junit out = Some doc"
      "ci_totals doc = (length ?rs, length (filter junit_failed ?rs), length (filter (\<lambda>res. resStatus res = StatusSkipped) ?rs))"
    by blast
  with w show ?thesis by (simp add: junit_failed_def example_result_def)
qed

text \<open>
  A test that passes although it is listed as a known failure fails the run, and the JUnit report
  of that run shows no failure at all.
\<close>

theorem junit_hides_unexpected_pass:
  "let results = [kf_classify (Some \<lparr>kfNames = [''a''], kfUnknown = 0\<rparr>) (example_result ''a'' StatusPassed)]
   in snd (summary r results wall) = Some 1 \<and> jsFailures (junit_report results wall) = 0 \<and>
      map jcFailure (jsSuites (junit_report results wall)) = [None]"
  by (simp add: snd_summary kf_classify_def kf_expected_def example_result_def fails_run_def
      junit_report_def junit_add_def Let_def)

end
