(* ===== verification/Http.thy ===== *)
theory Http
  imports Url
begin

text \<open>
  What the client and the tests use of \<open>net/http\<close> and \<open>net/url\<close>: headers under canonical names, and the
  request an operation hands down the SDK's middleware stack. A header is an association list: its
  order is the one in which Go happens to range over the map, and results are stated for every order.
\<close>

section \<open>Header names\<close>

definition is_token_byte :: "char \<Rightarrow> bool" where
  "is_token_byte c \<longleftrightarrow> is_lower_ascii c \<or> is_upper_ascii c \<or> is_digit_ascii c \<or>
     c \<in> set ''!#$%&*+-.^_`|~'' \<or> byte c = 39"

fun canonical_from :: "bool \<Rightarrow> gostring \<Rightarrow> gostring" where
  "canonical_from upper [] = []"
| "canonical_from upper (c # s) =
     (if upper then upper_byte c else lower_byte c) # canonical_from (c = CHR ''-'') s"

text \<open>\<open>textproto.CanonicalMIMEHeaderKey\<close>: a name with a byte no token has is left as it is.\<close>

definition canonical_key :: "gostring \<Rightarrow> gostring" where
  "canonical_key s = (if list_all is_token_byte s then canonical_from True s else s)"

lemma upper_byte_hyphen: "upper_byte c = CHR ''-'' \<longleftrightarrow> c = CHR ''-''"
proof
  assume h: "upper_byte c = CHR ''-''"
  show "c = CHR ''-''"
  proof (cases "is_lower_ascii c")
    case True
    then have "byte (upper_byte c) = byte c - 32" "97 \<le> byte c"
      by (auto simp: upper_byte_def byte_def is_lower_ascii_def in_byte_range_def)
    with h show ?thesis by (simp add: byte_def)
  qed (use h in \<open>simp add: upper_byte_def\<close>)
qed (simp add: upper_byte_def is_lower_ascii_def in_byte_range_def byte_def)

lemma lower_byte_hyphen: "lower_byte c = CHR ''-'' \<longleftrightarrow> c = CHR ''-''"
proof
  assume h: "lower_byte c = CHR ''-''"
  show "c = CHR ''-''"
  proof (cases "is_upper_ascii c")
    case True
    then have "byte (lower_byte c) = byte c + 32" "65 \<le> byte c"
      by (auto simp: lower_byte_def byte_def is_upper_ascii_def in_byte_range_def)
    with h show ?thesis by (simp add: byte_def)
  qed (use h in \<open>simp add: lower_byte_def\<close>)
qed (simp add: lower_byte_def is_upper_ascii_def in_byte_range_def byte_def)

lemma upper_byte_idem [simp]: "upper_byte (upper_byte c) = upper_byte c"
proof (cases "is_lower_ascii c")
  case True
  then have "byte (upper_byte c) = byte c - 32" "97 \<le> byte c" "byte c \<le> 122"
    by (auto simp: upper_byte_def byte_def is_lower_ascii_def in_byte_range_def)
  then have "\<not> is_lower_ascii (upper_byte c)"
    by (simp add: is_lower_ascii_def in_byte_range_def)
  then show ?thesis by (simp add: upper_byte_def [of "upper_byte c"])
qed (simp add: upper_byte_def)

lemma canonical_from_idem: "canonical_from u (canonical_from u s) = canonical_from u s"
  by (induction s arbitrary: u) (simp_all add: upper_byte_hyphen lower_byte_hyphen)

lemma token_upper: "is_token_byte c \<Longrightarrow> is_token_byte (upper_byte c)"
proof (cases "is_lower_ascii c")
  case True
  then have "byte (upper_byte c) = byte c - 32" "97 \<le> byte c" "byte c \<le> 122"
    by (auto simp: upper_byte_def byte_def is_lower_ascii_def in_byte_range_def)
  then have "is_upper_ascii (upper_byte c)" unfolding is_upper_ascii_def in_byte_range_def by linarith
  then show ?thesis by (simp add: is_token_byte_def)
qed (simp add: upper_byte_def)

lemma token_lower: "is_token_byte c \<Longrightarrow> is_token_byte (lower_byte c)"
proof (cases "is_upper_ascii c")
  case True
  then have "byte (lower_byte c) = byte c + 32" "65 \<le> byte c" "byte c \<le> 90"
    by (auto simp: lower_byte_def byte_def is_upper_ascii_def in_byte_range_def)
  then have "is_lower_ascii (lower_byte c)" unfolding is_lower_ascii_def in_byte_range_def by linarith
  then show ?thesis by (simp add: is_token_byte_def)
qed (simp add: lower_byte_def)

lemma canonical_from_token: "list_all is_token_byte s \<Longrightarrow> list_all is_token_byte (canonical_from u s)"
  by (induction s arbitrary: u) (simp_all add: token_upper token_lower)

lemma canonical_key_idem [simp]: "canonical_key (canonical_key s) = canonical_key s"
  by (simp add: canonical_key_def canonical_from_token canonical_from_idem)

lemma lower_upper_byte [simp]: "lower_byte (upper_byte c) = lower_byte c"
proof (cases "is_lower_ascii c")
  case True
  then have b: "byte (upper_byte c) = byte c - 32" "97 \<le> byte c" "byte c \<le> 122"
    by (auto simp: upper_byte_def byte_def is_lower_ascii_def in_byte_range_def)
  then have "is_upper_ascii (upper_byte c)" unfolding is_upper_ascii_def in_byte_range_def by linarith
  moreover have "\<not> is_upper_ascii c" using b by (simp add: is_upper_ascii_def in_byte_range_def)
  ultimately show ?thesis using b by (simp add: lower_byte_def)
qed (simp add: upper_byte_def)

lemma to_lower_canonical [simp]: "to_lower (canonical_key s) = to_lower s"
proof -
  have "to_lower (canonical_from u s) = to_lower s" for u
    by (induction s arbitrary: u) (simp_all add: to_lower_def)
  then show ?thesis by (simp add: canonical_key_def)
qed

section \<open>Headers\<close>

type_synonym header = "(gostring \<times> gostring list) list"

definition header_values :: "header \<Rightarrow> gostring \<Rightarrow> gostring list" where
  "header_values h name = (case map_of h (canonical_key name) of None \<Rightarrow> [] | Some vs \<Rightarrow> vs)"

definition header_get :: "header \<Rightarrow> gostring \<Rightarrow> gostring" where
  "header_get h name = (case header_values h name of [] \<Rightarrow> [] | v # _ \<Rightarrow> v)"

definition header_del :: "gostring \<Rightarrow> header \<Rightarrow> header" where
  "header_del name h = filter (\<lambda>(k, _). k \<noteq> canonical_key name) h"

definition header_set :: "gostring \<Rightarrow> gostring \<Rightarrow> header \<Rightarrow> header" where
  "header_set name v h = (canonical_key name, [v]) # header_del name h"

definition header_ok :: "header \<Rightarrow> bool" where
  "header_ok h \<longleftrightarrow> distinct (map fst h)"

lemma map_of_header_del: "map_of (header_del n h) k = (if k = canonical_key n then None else map_of h k)"
  by (induction h) (auto simp: header_del_def)

text \<open>A map interface: what a lookup gives after an update or a removal.\<close>

locale header_map =
  fixes get :: "'h \<Rightarrow> gostring \<Rightarrow> gostring list"
    and put :: "gostring \<Rightarrow> gostring \<Rightarrow> 'h \<Rightarrow> 'h"
    and del :: "gostring \<Rightarrow> 'h \<Rightarrow> 'h"
    and same :: "gostring \<Rightarrow> gostring \<Rightarrow> bool"
  assumes get_put: "get (put n v h) m = (if same m n then [v] else get h m)"
    and get_del: "get (del n h) m = (if same m n then [] else get h m)"
    and same_refl: "same n n"
begin

definition put_all :: "(gostring \<times> gostring) list \<Rightarrow> 'h \<Rightarrow> 'h" where
  "put_all kvs h = foldl (\<lambda>h (n, v). put n v h) h kvs"

definition del_all :: "gostring list \<Rightarrow> 'h \<Rightarrow> 'h" where
  "del_all ns h = foldl (\<lambda>h n. del n h) h ns"

lemma get_put_all_other: "\<forall>(n, _) \<in> set kvs. \<not> same m n \<Longrightarrow> get (put_all kvs h) m = get h m"
  unfolding put_all_def by (induction kvs arbitrary: h) (auto simp: get_put)

lemma get_put_all_last: "get (put_all (kvs @ [(n, v)]) h) n = [v]"
  unfolding put_all_def by (simp add: get_put same_refl)

lemma get_del_all: "get (del_all ns h) m = (if \<exists>n \<in> set ns. same m n then [] else get h m)"
  unfolding del_all_def by (induction ns arbitrary: h) (auto simp: get_del)

end

interpretation headers: header_map header_values header_set header_del
    "\<lambda>m n. canonical_key m = canonical_key n"
  by unfold_locales (auto simp: header_values_def header_set_def map_of_header_del)

lemma header_ok_del [simp]: "header_ok h \<Longrightarrow> header_ok (header_del n h)"
  by (induction h) (auto simp: header_ok_def header_del_def)

lemma header_ok_set [simp]: "header_ok h \<Longrightarrow> header_ok (header_set n v h)"
  using header_ok_del [of h n] by (auto simp: header_ok_def header_set_def header_del_def)

section \<open>Requests\<close>

record request =
  rqMethod :: gostring
  rqScheme :: gostring
  rqHost :: gostring
  rqPath :: gostring
  rqRawPath :: gostring
  rqRawQuery :: gostring
  rqHeader :: header
  rqContentLength :: int
  rqBody :: gostring

definition setHeaders :: "(gostring \<times> gostring) list \<Rightarrow> request \<Rightarrow> request" where
  "setHeaders h req = foldl (\<lambda>r (n, v). r\<lparr>rqHeader := header_set n v (rqHeader r)\<rparr>) req h"

definition removeHeaders :: "gostring list \<Rightarrow> request \<Rightarrow> request" where
  "removeHeaders ns req = foldl (\<lambda>r n. r\<lparr>rqHeader := header_del n (rqHeader r)\<rparr>) req ns"

lemma rqHeader_setHeaders: "rqHeader (setHeaders h req) = headers.put_all h (rqHeader req)"
  unfolding setHeaders_def headers.put_all_def
  by (induction h arbitrary: req) (auto split: prod.splits)

lemma rqHeader_removeHeaders: "rqHeader (removeHeaders ns req) = headers.del_all ns (rqHeader req)"
  unfolding removeHeaders_def headers.del_all_def by (induction ns arbitrary: req) auto

end
