(* ===== verification/SigV2.thy ===== *)
theory SigV2
  imports Http "HOL-Library.Word"
begin

unbundle bit_operations_syntax

text \<open>
  The S3 v2 signature (\<open>internal/client/sigv2.go\<close>): the string to sign, HMAC-SHA-1 and base64 as the
  standard library computes them, and the two headers the signing step writes. SHA-1 works on 32-bit
  words whose sums wrap around and pads with the bit length as a 64-bit number.
\<close>

section \<open>SHA-1\<close>

type_synonym octet = "8 word"
type_synonym w32 = "32 word"

definition octets :: "gostring \<Rightarrow> octet list" where
  "octets s = map (\<lambda>c. word_of_nat (byte c)) s"

definition be_word :: "octet list \<Rightarrow> w32" where
  "be_word bs = foldl (\<lambda>w b. (w * 256) OR ucast b) 0 bs"

definition word_be :: "w32 \<Rightarrow> octet list" where
  "word_be w = [ucast (drop_bit 24 w), ucast (drop_bit 16 w), ucast (drop_bit 8 w), ucast w]"

definition be_length :: "64 word \<Rightarrow> octet list" where
  "be_length n = map (\<lambda>i. ucast (drop_bit (56 - 8 * i) n)) [0 ..< 8]"

definition sha1_pad :: "octet list \<Rightarrow> octet list" where
  "sha1_pad m = m @ [0x80] @ replicate (nat ((55 - int (length m)) mod 64)) 0 @
     be_length (word_of_nat (8 * length m))"

fun sha1_expand :: "nat \<Rightarrow> w32 list \<Rightarrow> w32 list" where
  "sha1_expand 0 ws = ws"
| "sha1_expand (Suc n) ws =
     (let t = length ws in
      sha1_expand n (ws @ [word_rotl 1 (ws ! (t - 3) XOR ws ! (t - 8) XOR ws ! (t - 14) XOR ws ! (t - 16))]))"

definition sha1_f :: "nat \<Rightarrow> w32 \<Rightarrow> w32 \<Rightarrow> w32 \<Rightarrow> w32" where
  "sha1_f t b c d =
     (if t < 20 then (b AND c) OR (NOT b AND d)
      else if t < 40 then b XOR c XOR d
      else if t < 60 then (b AND c) OR (b AND d) OR (c AND d)
      else b XOR c XOR d)"

definition sha1_k :: "nat \<Rightarrow> w32" where
  "sha1_k t = (if t < 20 then 0x5A827999 else if t < 40 then 0x6ED9EBA1
     else if t < 60 then 0x8F1BBCDC else 0xCA62C1D6)"

type_synonym sha1_state = "w32 \<times> w32 \<times> w32 \<times> w32 \<times> w32"

fun sha1_rounds :: "nat \<Rightarrow> w32 list \<Rightarrow> sha1_state \<Rightarrow> sha1_state" where
  "sha1_rounds t [] s = s"
| "sha1_rounds t (w # ws) (a, b, c, d, e) =
     sha1_rounds (t + 1) ws
       (word_rotl 5 a + sha1_f t b c d + e + sha1_k t + w, a, word_rotl 30 b, c, d)"

fun chunks :: "nat \<Rightarrow> nat \<Rightarrow> 'a list \<Rightarrow> 'a list list" where
  "chunks 0 k xs = []"
| "chunks (Suc n) k xs = take k xs # chunks n k (drop k xs)"

definition sha1_block :: "sha1_state \<Rightarrow> octet list \<Rightarrow> sha1_state" where
  "sha1_block s block =
     (case (s, sha1_rounds 0 (sha1_expand 64 (map be_word (chunks 16 4 block))) s) of
        ((a, b, c, d, e), (a', b', c', d', e')) \<Rightarrow> (a + a', b + b', c + c', d + d', e + e'))"

definition sha1_init :: sha1_state where
  "sha1_init = (0x67452301, 0xEFCDAB89, 0x98BADCFE, 0x10325476, 0xC3D2E1F0)"

definition sha1_out :: "sha1_state \<Rightarrow> octet list" where
  "sha1_out s = (case s of (a, b, c, d, e) \<Rightarrow>
     word_be a @ word_be b @ word_be c @ word_be d @ word_be e)"

definition sha1 :: "octet list \<Rightarrow> octet list" where
  "sha1 m = (let p = sha1_pad m in
     sha1_out (foldl sha1_block sha1_init (chunks (length p div 64) 64 p)))"

lemma length_sha1 [simp]: "length (sha1 m) = 20"
  by (simp add: sha1_def sha1_out_def word_be_def Let_def split: prod.splits)

lemma length_sha1_pad: "length (sha1_pad m) mod 64 = 0"
proof -
  have "(int (length m) + 9 + (55 - int (length m)) mod 64) mod 64 = 0" by presburger
  moreover have "int (length (sha1_pad m)) = int (length m) + 9 + (55 - int (length m)) mod 64"
    by (simp add: sha1_pad_def be_length_def)
  ultimately show ?thesis by presburger
qed

section \<open>HMAC and base64\<close>

definition hmac :: "(octet list \<Rightarrow> octet list) \<Rightarrow> octet list \<Rightarrow> octet list \<Rightarrow> octet list" where
  "hmac h key m =
     (let k = (if length key > 64 then h key else key);
          k' = k @ replicate (64 - length k) 0 in
      h (map (\<lambda>b. b XOR 0x5C) k' @ h (map (\<lambda>b. b XOR 0x36) k' @ m)))"

definition b64_alphabet :: gostring where
  "b64_alphabet = ''ABCDEFGHIJKLMNOPQRSTUVWXYZabcdefghijklmnopqrstuvwxyz0123456789+/''"

definition b64_char :: "nat \<Rightarrow> char" where
  "b64_char n = b64_alphabet ! n"

fun base64_encode :: "octet list \<Rightarrow> gostring" where
  "base64_encode [] = []"
| "base64_encode [a] =
     (let x = unat a in [b64_char (x div 4), b64_char (x mod 4 * 16), CHR ''='', CHR ''=''])"
| "base64_encode [a, b] =
     (let x = unat a; y = unat b in
      [b64_char (x div 4), b64_char (x mod 4 * 16 + y div 16), b64_char (y mod 16 * 4), CHR ''=''])"
| "base64_encode (a # b # c # bs) =
     (let x = unat a; y = unat b; z = unat c in
      [b64_char (x div 4), b64_char (x mod 4 * 16 + y div 16), b64_char (y mod 16 * 4 + z div 64),
       b64_char (z mod 64)] @ base64_encode bs)"

lemma length_base64: "length (base64_encode bs) = 4 * ((length bs + 2) div 3)"
proof (induction bs rule: base64_encode.induct)
  case (4 a b c bs)
  have "(length (a # b # c # bs) + 2) div 3 = Suc ((length bs + 2) div 3)"
    by (simp add: div_nat_eqI)
  then show ?case using 4 by (simp add: Let_def)
qed (simp_all add: Let_def)

definition b64_value :: "char \<Rightarrow> nat option" where
  "b64_value c =
     (if in_byte_range 65 90 c then Some (byte c - 65)
      else if in_byte_range 97 122 c then Some (byte c - 71)
      else if in_byte_range 48 57 c then Some (byte c + 4)
      else if c = CHR ''+'' then Some 62 else if c = CHR ''/'' then Some 63 else None)"

definition b64_group :: "char \<Rightarrow> char \<Rightarrow> char \<Rightarrow> char \<Rightarrow> (octet \<times> octet \<times> octet) option" where
  "b64_group p q r s = (case (b64_value p, b64_value q, b64_value r, b64_value s) of
       (Some w, Some x, Some y, Some z) \<Rightarrow>
         Some (word_of_nat (w * 4 + x div 16), word_of_nat (x mod 16 * 16 + y div 4), word_of_nat (y mod 4 * 64 + z))
     | _ \<Rightarrow> None)"

fun base64_decode :: "gostring \<Rightarrow> octet list option" where
  "base64_decode [] = Some []"
| "base64_decode (p # q # r # s # t) =
     (if r = CHR ''='' \<and> s = CHR ''='' \<and> t = [] then
        map_option (\<lambda>(a, b, c). [a]) (b64_group p q (CHR ''A'') (CHR ''A''))
      else if s = CHR ''='' \<and> t = [] then map_option (\<lambda>(a, b, c). [a, b]) (b64_group p q r (CHR ''A''))
      else (case (b64_group p q r s, base64_decode t) of
          (Some (a, b, c), Some bs) \<Rightarrow> Some (a # b # c # bs)
        | _ \<Rightarrow> None))"
| "base64_decode _ = None"

lemma b64_char_value: "n < 64 \<Longrightarrow> b64_value (b64_char n) = Some n \<and> b64_char n \<noteq> CHR ''=''"
proof -
  have "list_all (\<lambda>n. b64_value (b64_char n) = Some n \<and> b64_char n \<noteq> CHR ''='') [0 ..< 64]"
    by code_simp
  then show "n < 64 \<Longrightarrow> b64_value (b64_char n) = Some n \<and> b64_char n \<noteq> CHR ''=''"
    by (simp add: list_all_iff)
qed

lemma b64_value_A: "b64_value (CHR ''A'') = Some 0"
  by (simp add: b64_value_def in_byte_range_def byte_def)

lemma unat_octet: "unat (a :: octet) < 256"
  using unsigned_less [of a, where ?'a = nat] by simp

lemma base_digits: "b < k \<Longrightarrow> (a * k + b) div k = a \<and> (a * k + b) mod k = (b :: nat)"
  by simp

lemma b64_group_encode:
  fixes x y z :: nat
  assumes "x < 256" "y < 256" "z < 256"
  shows "b64_group (b64_char (x div 4)) (b64_char (x mod 4 * 16 + y div 16))
      (b64_char (y mod 16 * 4 + z div 64)) (b64_char (z mod 64)) =
    Some (word_of_nat x, word_of_nat y, word_of_nat z)"
proof -
  have d: "x div 4 < 64" "y div 16 < 16" "z div 64 < 4" "x mod 4 < 4" "y mod 16 < 16" "z mod 64 < 64"
    using assms by (simp_all add: less_mult_imp_div_less)
  have "x mod 4 * 16 + y div 16 < 64" "y mod 16 * 4 + z div 64 < 64" using d by linarith+
  moreover have "x div 4 * 4 + (x mod 4 * 16 + y div 16) div 16 = x"
      "(x mod 4 * 16 + y div 16) mod 16 * 16 + (y mod 16 * 4 + z div 64) div 4 = y"
      "(y mod 16 * 4 + z div 64) mod 4 * 64 + z mod 64 = z"
    using base_digits [OF d(2), of "x mod 4"] base_digits [OF d(3), of "y mod 16"]
    by (simp_all only:) (simp_all add: mult.commute)
  ultimately show ?thesis using d(1,6) by (simp add: b64_group_def b64_char_value del: of_nat_add of_nat_mult)
qed

lemma base64_decode_encode [simp]: "base64_decode (base64_encode bs) = Some bs"
proof (induction bs rule: base64_encode.induct)
  case (2 a)
  have "b64_char 0 = CHR ''A''" by (simp add: b64_char_def b64_alphabet_def)
  then show ?case
    using b64_group_encode [of "unat a" 0 0] unat_octet [of a] by (simp add: Let_def)
next
  case (3 a b)
  have "b64_char 0 = CHR ''A''" by (simp add: b64_char_def b64_alphabet_def)
  moreover have "unat b mod 16 * 4 < 64" by presburger
  ultimately show ?case
    using b64_group_encode [of "unat a" "unat b" 0] unat_octet [of a] unat_octet [of b]
      b64_char_value [of "unat b mod 16 * 4"] by (simp add: Let_def)
next
  case (4 a b c bs)
  have "unat c mod 64 < 64" by simp
  then show ?case
    using b64_group_encode [of "unat a" "unat b" "unat c"] unat_octet [of a] unat_octet [of b]
      unat_octet [of c] b64_char_value [of "unat c mod 64"] 4 by (simp add: Let_def)
qed simp

section \<open>The signing step\<close>

definition join_comma :: "gostring list \<Rightarrow> gostring" where
  "join_comma vs = str_join (map trim_space vs) '',''"

definition canonicalAmzHeaders :: "header \<Rightarrow> gostring" where
  "canonicalAmzHeaders h =
     (let names = sort (map to_lower (filter (\<lambda>n. has_prefix (to_lower n) ''x-amz-'') (map fst h)))
      in str_join (map (\<lambda>n. n @ '':'' @ join_comma (header_values h n)) names) [CHR 0x0A])"

definition stringToSignV2 :: "request \<Rightarrow> gostring" where
  "stringToSignV2 req =
     (let custom = canonicalAmzHeaders (rqHeader req) in
      to_upper (rqMethod req) @ [CHR 0x0A] @
      concat (map (\<lambda>n. trim_space (header_get (rqHeader req) n) @ [CHR 0x0A])
        [''Content-Md5'', ''Content-Type'', ''Date'']) @
      (if custom = [] then [] else custom @ [CHR 0x0A]) @
      escaped_path (rqPath req) (rqRawPath req))"

definition signatureV2 :: "gostring \<Rightarrow> request \<Rightarrow> gostring" where
  "signatureV2 secret req = base64_encode (hmac sha1 (octets secret) (octets (stringToSignV2 req)))"

text \<open>\<open>now\<close> is the clock printed in \<open>http.TimeFormat\<close>.\<close>

definition signV2 :: "gostring \<Rightarrow> gostring \<Rightarrow> gostring \<Rightarrow> request \<Rightarrow> request" where
  "signV2 access secret now req =
     (let r1 = req\<lparr>rqHeader := header_del ''X-Amz-Content-Sha256'' (rqHeader req)\<rparr>;
          r2 = r1\<lparr>rqHeader := header_set ''Date'' now (rqHeader r1)\<rparr>
      in r2\<lparr>rqHeader := header_set ''Authorization''
           (''AWS '' @ access @ '':'' @ signatureV2 secret r2) (rqHeader r2)\<rparr>)"

section \<open>What the signature depends on\<close>

lemma header_values_order:
  "header_ok h \<Longrightarrow> mset h = mset h' \<Longrightarrow> header_values h n = header_values h' n"
  by (simp add: header_values_def header_ok_def map_of_mset_eq)

lemma canonicalAmzHeaders_order:
  assumes "header_ok h" and "mset h = mset h'"
  shows "canonicalAmzHeaders h = canonicalAmzHeaders h'"
proof -
  let ?names = "\<lambda>h :: header. map to_lower (filter (\<lambda>n. has_prefix (to_lower n) ''x-amz-'') (map fst h))"
  have m: "mset (?names h) = mset (?names h')" by (simp only: mset_map mset_filter assms(2))
  then have "sort (?names h) = sort (?names h')" 
    by (intro properties_for_sort) (simp_all only: mset_sort sorted_sort m)
  then show ?thesis using header_values_order [OF assms]
    by (simp add: canonicalAmzHeaders_def)
qed

text \<open>
  The v2 signature does not depend on the order in which Go ranges over the header map.
\<close>

theorem signatureV2_order_independent:
  assumes "header_ok h" and "mset h = mset h'"
  shows "signatureV2 secret (req\<lparr>rqHeader := h\<rparr>) = signatureV2 secret (req\<lparr>rqHeader := h'\<rparr>)"
  using canonicalAmzHeaders_order [OF assms] header_values_order [OF assms]
  by (simp add: signatureV2_def stringToSignV2_def header_get_def)

lemma not_amz: "\<not> has_prefix (to_lower ''Authorization'') ''x-amz-''"
  by (simp add: to_lower_def lower_byte_def is_upper_ascii_def in_byte_range_def byte_def has_prefix_def)

lemma canonical_authorization: "canonical_key ''Authorization'' = ''Authorization''"
  by (simp add: canonical_key_def is_token_byte_def is_lower_ascii_def is_upper_ascii_def
      is_digit_ascii_def in_byte_range_def byte_def upper_byte_def lower_byte_def)

lemma canonicalAmzHeaders_authorization:
  "canonicalAmzHeaders (header_set ''Authorization'' v h) = canonicalAmzHeaders h"
proof -
  let ?amz = "\<lambda>n. has_prefix (to_lower n) ''x-amz-''"
  have names: "filter ?amz (map fst (header_set ''Authorization'' v h)) = filter ?amz (map fst h)"
    using not_amz by (simp add: header_set_def header_del_def canonical_authorization)
      (induction h; auto)
  have "header_values (header_set ''Authorization'' v h) n = header_values h n" if "?amz n" for n
  proof -
    have "canonical_key n \<noteq> ''Authorization''"
      using that not_amz by (metis to_lower_canonical)
    then show ?thesis by (simp add: headers.get_put canonical_authorization)
  qed
  then show ?thesis unfolding canonicalAmzHeaders_def names Let_def
    by (intro arg_cong [where f = "\<lambda>ls. str_join ls [CHR 0x0A]"] map_cong) auto
qed

lemma other_header:
  "n \<in> {''Content-Md5'', ''Content-Type'', ''Date''} \<Longrightarrow>
    header_get (header_set ''Authorization'' v h) n = header_get h n"
proof -
  assume n: "n \<in> {''Content-Md5'', ''Content-Type'', ''Date''}"
  have "to_lower n \<noteq> to_lower ''Authorization''"
    using n by (elim insertE) (simp_all add: to_lower_def lower_byte_def is_upper_ascii_def in_byte_range_def byte_def)
  then have "canonical_key n \<noteq> canonical_key ''Authorization''" by (metis to_lower_canonical)
  then show ?thesis by (simp add: header_get_def headers.get_put)
qed

lemma stringToSignV2_authorization:
  "stringToSignV2 (req\<lparr>rqHeader := header_set ''Authorization'' v (rqHeader req)\<rparr>) = stringToSignV2 req"
  by (simp add: stringToSignV2_def canonicalAmzHeaders_authorization other_header)

lemma signature_length: "length (signatureV2 secret req) = 28"
  by (simp add: signatureV2_def length_base64 hmac_def Let_def)

lemma signature_decodes:
  "base64_decode (signatureV2 secret req) = Some (hmac sha1 (octets secret) (octets (stringToSignV2 req)))"
  by (simp add: signatureV2_def)

lemma other_names:
  "canonical_key ''Date'' \<noteq> canonical_key ''Authorization''"
  "canonical_key ''X-Amz-Content-Sha256'' \<noteq> canonical_key ''Authorization''"
  "canonical_key ''X-Amz-Content-Sha256'' \<noteq> canonical_key ''Date''"
proof -
  have "to_lower ''Date'' \<noteq> to_lower ''Authorization''"
    "to_lower ''X-Amz-Content-Sha256'' \<noteq> to_lower ''Authorization''"
    "to_lower ''X-Amz-Content-Sha256'' \<noteq> to_lower ''Date''"
    by (simp_all add: to_lower_def)
  then show "canonical_key ''Date'' \<noteq> canonical_key ''Authorization''"
    "canonical_key ''X-Amz-Content-Sha256'' \<noteq> canonical_key ''Authorization''"
    "canonical_key ''X-Amz-Content-Sha256'' \<noteq> canonical_key ''Date''"
    by (metis to_lower_canonical)+
qed


text \<open>A request with two headers in either order.\<close>

definition example_request :: "header \<Rightarrow> request" where
  "example_request h = \<lparr>rqMethod = ''PUT'', rqScheme = ''http'', rqHost = ''h:80'', rqPath = ''/b/k'',
     rqRawPath = [], rqRawQuery = [], rqHeader = h, rqContentLength = 0, rqBody = []\<rparr>"

theorem signatureV2_order_independent_witness:
  "signatureV2 ''s'' (example_request [(''X-Amz-Acl'', [''private'']), (''Date'', [''d''])]) =
   signatureV2 ''s'' (example_request [(''Date'', [''d'']), (''X-Amz-Acl'', [''private''])])"
proof -
  let ?h = "[(''X-Amz-Acl'', [''private'']), (''Date'', [''d''])]"
  let ?h' = "[(''Date'', [''d'']), (''X-Amz-Acl'', [''private''])]"
  have "header_ok ?h" "mset ?h = mset ?h'" by (simp_all add: header_ok_def)
  from signatureV2_order_independent [OF this, of "''s''" "example_request []"]
  show ?thesis by (simp add: example_request_def)
qed

end
