(* ===== verification/Config.thy ===== *)
theory Config
  imports Prelude
begin

text \<open>
  The s3tests.conf reader: \<open>internal/config/ini.go\<close> (lines, sections, inheritance from DEFAULT) and
  \<open>internal/config/config.go\<close> (what a usable configuration must have, the endpoint, the bucket
  prefix). Lowercasing is that of ASCII letters, which is what \<open>strings.ToLower\<close> does to ASCII text;
  the bytes of a file and its read error are a \<open>go_reader\<close>.
\<close>

section \<open>INI files\<close>

record ini =
  sections :: "gostring \<Rightarrow> (gostring \<Rightarrow> gostring option) option"

datatype ini_error =
    UnterminatedSection nat
  | ExpectedKeyValue nat
  | IniRead scan_error

definition defaultSection :: gostring where
  "defaultSection = ''DEFAULT''"

definition splitKeyValue :: "gostring \<Rightarrow> (gostring \<times> gostring) option" where
  "splitKeyValue s =
     (let before = takeWhile (\<lambda>c. c \<noteq> CHR ''='' \<and> c \<noteq> CHR '':'') s in
      if before = s then None
      else let key = to_lower (trim_space before) in
        if key = [] then None else Some (key, trim_space (drop (length before + 1) s)))"

definition open_section :: "gostring \<Rightarrow> ini \<Rightarrow> ini" where
  "open_section name c = (case sections c name of
       Some _ \<Rightarrow> c
     | None \<Rightarrow> c\<lparr>sections := (sections c)(name \<mapsto> (\<lambda>_. None))\<rparr>)"

definition set_value :: "gostring \<Rightarrow> gostring \<Rightarrow> gostring \<Rightarrow> ini \<Rightarrow> ini" where
  "set_value section key value c =
     c\<lparr>sections := (sections c)(section \<mapsto>
        (case sections c section of None \<Rightarrow> (\<lambda>_. None) | Some m \<Rightarrow> m)(key \<mapsto> value))\<rparr>"

text \<open>
  What a line says. The current section is always present, so an assignment never meets the \<open>nil\<close>
  map of an absent one.
\<close>

datatype ini_line =
    Ignored
  | Header gostring
  | BadHeader
  | Assign gostring gostring
  | BadLine

definition read_line :: "gostring \<Rightarrow> ini_line" where
  "read_line raw =
     (let text = trim_space raw in
      if text = [] \<or> has_prefix text ''#'' \<or> has_prefix text '';'' then Ignored
      else if has_prefix text ''['' then
        (if \<not> has_suffix text '']'' then BadHeader
         else Header (trim_space (take (length text - 2) (drop 1 text))))
      else (case splitKeyValue text of
              None \<Rightarrow> BadLine
            | Some (key, value) \<Rightarrow> Assign key value))"

fun parse_lines :: "nat \<Rightarrow> gostring \<Rightarrow> ini \<Rightarrow> gostring list \<Rightarrow> (ini_error, ini) res" where
  "parse_lines line section c [] = Inr c"
| "parse_lines line section c (raw # rest) = (case read_line raw of
       Ignored \<Rightarrow> parse_lines (line + 1) section c rest
     | Header name \<Rightarrow> parse_lines (line + 1) name (open_section name c) rest
     | BadHeader \<Rightarrow> Inl (UnterminatedSection line)
     | Assign key value \<Rightarrow> parse_lines (line + 1) section (set_value section key value c) rest
     | BadLine \<Rightarrow> Inl (ExpectedKeyValue line))"

definition ini_empty :: ini where
  "ini_empty = \<lparr>sections = [defaultSection \<mapsto> (\<lambda>_. None)]\<rparr>"

definition parseINI :: "go_reader \<Rightarrow> (ini_error, ini) res" where
  "parseINI r = (case scan_lines r of (ls, err) \<Rightarrow>
     (case parse_lines 1 defaultSection ini_empty ls of
        Inl e \<Rightarrow> Inl e
      | Inr c \<Rightarrow> (case err of None \<Rightarrow> Inr c | Some e \<Rightarrow> Inl (IniRead e))))"

definition ini_has :: "ini \<Rightarrow> gostring \<Rightarrow> bool" where
  "ini_has c section \<longleftrightarrow> sections c section \<noteq> None"

definition section_value :: "ini \<Rightarrow> gostring \<Rightarrow> gostring \<Rightarrow> gostring option" where
  "section_value c section key = (case sections c section of None \<Rightarrow> None | Some m \<Rightarrow> m key)"

definition ini_get :: "ini \<Rightarrow> gostring \<Rightarrow> gostring \<Rightarrow> gostring option" where
  "ini_get c section key = (case section_value c section key of
       Some v \<Rightarrow> Some v
     | None \<Rightarrow> section_value c defaultSection key)"

subsection \<open>What parsing means\<close>

text \<open>The assignments of a file, each with the section it stands in, in order.\<close>

fun assignments :: "gostring \<Rightarrow> gostring list \<Rightarrow> (gostring \<times> gostring \<times> gostring) list" where
  "assignments section [] = []"
| "assignments section (raw # rest) = (case read_line raw of
       Header name \<Rightarrow> assignments name rest
     | Assign key value \<Rightarrow> (section, key, value) # assignments section rest
     | _ \<Rightarrow> assignments section rest)"

definition last_assigned :: "(gostring \<times> gostring \<times> gostring) list \<Rightarrow> gostring \<Rightarrow> gostring \<Rightarrow> gostring option" where
  "last_assigned as section key = map_of (rev (map (\<lambda>(s, k, v). ((s, k), v)) as)) (section, key)"

definition headers_of :: "gostring list \<Rightarrow> gostring set" where
  "headers_of ls = {name. Header name \<in> set (map read_line ls)}"

definition bad_line :: "gostring \<Rightarrow> bool" where
  "bad_line raw \<longleftrightarrow> read_line raw \<in> {BadHeader, BadLine}"

lemma section_value_set [simp]:
  "section_value (set_value s k v c) s' k' = (if s' = s \<and> k' = k then Some v else section_value c s' k')"
  by (simp add: section_value_def set_value_def split: option.splits)

lemma section_value_open [simp]: "section_value (open_section n c) s k = section_value c s k"
  by (simp add: section_value_def open_section_def split: option.splits)

lemma ini_has_set [simp]: "ini_has (set_value s k v c) s' \<longleftrightarrow> s' = s \<or> ini_has c s'"
  by (simp add: ini_has_def set_value_def)

lemma ini_has_open [simp]: "ini_has (open_section n c) s' \<longleftrightarrow> s' = n \<or> ini_has c s'"
  by (auto simp: ini_has_def open_section_def split: option.splits)

lemma last_assigned_Nil [simp]: "last_assigned [] s k = None"
  by (simp add: last_assigned_def)

lemma last_assigned_Cons [simp]:
  "last_assigned ((s, k, v) # as) s' k' = (case last_assigned as s' k' of
     Some w \<Rightarrow> Some w | None \<Rightarrow> if s' = s \<and> k' = k then Some v else None)"
  by (auto simp: last_assigned_def map_add_def split: option.splits)

lemma parse_lines_ok:
  "parse_lines n sec c ls = Inr c' \<Longrightarrow> ini_has c sec \<Longrightarrow>
    (\<forall>s k. section_value c' s k = (case last_assigned (assignments sec ls) s k of
        Some v \<Rightarrow> Some v | None \<Rightarrow> section_value c s k)) \<and>
    (\<forall>s. ini_has c' s \<longleftrightarrow> ini_has c s \<or> s \<in> headers_of ls)"
proof (induction ls arbitrary: n sec c)
  case Nil
  then show ?case by (simp add: headers_of_def)
next
  case (Cons raw ls)
  show ?case
  proof (cases "read_line raw")
    case Ignored
    then show ?thesis using Cons.IH [of "n + 1" sec c] Cons.prems by (auto simp: headers_of_def)
  next
    case (Header name)
    then show ?thesis using Cons.IH [of "n + 1" name "open_section name c"] Cons.prems
      by (auto simp: headers_of_def split: option.splits)
  next
    case (Assign k v)
    then show ?thesis using Cons.IH [of "n + 1" sec "set_value sec k v c"] Cons.prems
      by (auto simp: headers_of_def split: option.splits)
  qed (use Cons.prems in simp_all)
qed

lemma parse_lines_total:
  "(\<exists>c'. parse_lines n sec c ls = Inr c') \<longleftrightarrow> (\<forall>raw \<in> set ls. \<not> bad_line raw)"
  by (induction ls arbitrary: n sec c) (simp_all add: bad_line_def split: ini_line.splits)

lemma parseINI_Inr:
  assumes "parseINI r = Inr c"
  obtains "scan_lines r = (fst (scan_lines r), None)"
    "parse_lines 1 defaultSection ini_empty (fst (scan_lines r)) = Inr c"
  using assms by (cases "scan_lines r") (auto simp: parseINI_def split: sum.splits option.splits)

lemma section_value_empty [simp]: "section_value ini_empty s k = None"
  by (simp add: section_value_def ini_empty_def)

lemma ini_has_empty [simp]: "ini_has ini_empty s \<longleftrightarrow> s = defaultSection"
  by (simp add: ini_has_def ini_empty_def)

text \<open>
  C28. A file that parses means its assignments: a value looked up in a section is the last one assigned
  in it, over all its headers, or else the last one assigned in DEFAULT; the sections present are
  DEFAULT and those with a header.
\<close>

theorem parseINI_meaning:
  assumes "parseINI r = Inr c"
  shows "ini_get c sec key = (let as = assignments defaultSection (fst (scan_lines r)) in
      case last_assigned as sec key of
        Some v \<Rightarrow> Some v
      | None \<Rightarrow> last_assigned as defaultSection key) \<and>
    (ini_has c sec \<longleftrightarrow> sec = defaultSection \<or> sec \<in> headers_of (fst (scan_lines r)))"
  using assms
proof (cases rule: parseINI_Inr)
  case 1
  show ?thesis
    using parse_lines_ok [OF 1(2)] by (simp add: ini_get_def Let_def split: option.splits)
qed

text \<open>
  A file parses exactly when it is read to its end without an error and no line is an unterminated
  header or lacks a key.
\<close>

theorem parseINI_accepts:
  "(\<exists>c. parseINI r = Inr c) \<longleftrightarrow>
     snd (scan_lines r) = None \<and> (\<forall>raw \<in> set (fst (scan_lines r)). \<not> bad_line raw)"
  using parse_lines_total [of 1 defaultSection ini_empty "fst (scan_lines r)"]
  by (cases "scan_lines r") (auto simp: parseINI_def split: sum.splits option.splits)

section \<open>Configuration\<close>

definition sectionMain :: gostring where
  "sectionMain = ''s3 main''"

definition sectionAlt :: gostring where
  "sectionAlt = ''s3 alt''"

definition sectionTenant :: gostring where
  "sectionTenant = ''s3 tenant''"

record user =
  AccessKey :: gostring
  SecretKey :: gostring
  DisplayName :: gostring
  UserID :: gostring
  Email :: gostring

record config =
  Endpoint :: gostring
  Host :: gostring
  Port :: int
  IsSecure :: bool
  SSLVerify :: bool
  VirtualHost :: bool
  APIName :: gostring
  Main :: user
  Alt :: user
  Tenant :: user
  TenantName :: gostring
  BucketPrefixName :: gostring
  KMSKeyID :: gostring
  SecondaryKMSKeyID :: gostring

datatype config_error =
    OpenConfig
  | ParseConfig ini_error
  | MissingSection gostring
  | MissingValue gostring gostring
  | NotANumber gostring gostring gostring
  | BadAddressingStyle gostring
  | PrefixTooLong gostring

definition required :: "ini \<Rightarrow> gostring \<Rightarrow> gostring \<Rightarrow> (config_error, gostring) res" where
  "required raw section key = (case ini_get raw section key of
       None \<Rightarrow> Inl (MissingValue key section)
     | Some v \<Rightarrow> if v = [] then Inl (MissingValue key section) else Inr v)"

text \<open>\<open>strconv.Atoi\<close> at 64 bits: an optional sign, decimal digits, and the range of an int64.\<close>

definition go_atoi :: "gostring \<Rightarrow> int option" where
  "go_atoi s =
     (let neg = has_prefix s ''-'';
          ds = (if neg \<or> has_prefix s ''+'' then tl s else s);
          n = (if neg then - int (dec_value ds) else int (dec_value ds)) in
      if ds = [] \<or> \<not> list_all is_digit_ascii ds then None
      else if - (2 ^ 63) \<le> n \<and> n < 2 ^ 63 then Some n else None)"

definition requiredInt :: "ini \<Rightarrow> gostring \<Rightarrow> gostring \<Rightarrow> (config_error, int) res" where
  "requiredInt raw section key = (case required raw section key of
       Inl e \<Rightarrow> Inl e
     | Inr v \<Rightarrow> (case go_atoi v of None \<Rightarrow> Inl (NotANumber key section v) | Some n \<Rightarrow> Inr n))"

definition boolean :: "ini \<Rightarrow> gostring \<Rightarrow> gostring \<Rightarrow> bool \<Rightarrow> bool" where
  "boolean raw section key def = (case ini_get raw section key of
       None \<Rightarrow> def
     | Some v \<Rightarrow>
         (let w = to_lower v in
          if w \<in> {''1'', ''yes'', ''true'', ''on''} then True
          else if w \<in> {''0'', ''no'', ''false'', ''off''} then False
          else def))"

definition read_user :: "ini \<Rightarrow> gostring \<Rightarrow> (config_error, user) res" where
  "read_user raw section = (case required raw section ''access_key'' of Inl e \<Rightarrow> Inl e
     | Inr a \<Rightarrow> (case required raw section ''secret_key'' of Inl e \<Rightarrow> Inl e
     | Inr k \<Rightarrow> (case required raw section ''display_name'' of Inl e \<Rightarrow> Inl e
     | Inr d \<Rightarrow> (case required raw section ''user_id'' of Inl e \<Rightarrow> Inl e
     | Inr u \<Rightarrow> (case required raw section ''email'' of Inl e \<Rightarrow> Inl e
     | Inr m \<Rightarrow> Inr \<lparr>AccessKey = a, SecretKey = k, DisplayName = d, UserID = u, Email = m\<rparr>)))))"

subsection \<open>The bucket prefix\<close>

definition maxPrefixLen :: nat where
  "maxPrefixLen = 30"

definition placeholder :: gostring where
  "placeholder = ''{random}''"

definition alphabet :: gostring where
  "alphabet = ''abcdefghijklmnopqrstuvwxyz0123456789''"

text \<open>The draws of \<open>rand.IntN(36)\<close> are a parameter.\<close>

definition randomString :: "(nat \<Rightarrow> nat) \<Rightarrow> nat \<Rightarrow> gostring" where
  "randomString draws n = map (\<lambda>i. alphabet ! draws i) [0 ..< n]"

definition BucketPrefix :: "(nat \<Rightarrow> nat) \<Rightarrow> gostring \<Rightarrow> (config_error, gostring) res" where
  "BucketPrefix draws template =
     (let fixed = length (str_replace_all template placeholder []) in
      if fixed > maxPrefixLen then Inl (PrefixTooLong template)
      else if \<not> str_contains template placeholder then Inr template
      else Inr (str_replace_all template placeholder (randomString draws (maxPrefixLen - fixed))))"

subsection \<open>Building the configuration\<close>

definition missing_section :: "ini \<Rightarrow> gostring option" where
  "missing_section raw = find (\<lambda>s. \<not> ini_has raw s) [sectionMain, sectionAlt, sectionTenant]"

definition get_or :: "ini \<Rightarrow> gostring \<Rightarrow> gostring \<Rightarrow> gostring \<Rightarrow> gostring" where
  "get_or raw section key def = (case ini_get raw section key of None \<Rightarrow> def | Some v \<Rightarrow> v)"

definition endpoint_of :: "bool \<Rightarrow> gostring \<Rightarrow> int \<Rightarrow> gostring" where
  "endpoint_of secure host port = (if secure then ''https'' else ''http'') @ ''://'' @ host @ '':'' @ int_dec port"

definition build :: "(nat \<Rightarrow> nat) \<Rightarrow> ini \<Rightarrow> (config_error, config) res" where
  "build draws raw = (case missing_section raw of Some s \<Rightarrow> Inl (MissingSection s) | None \<Rightarrow>
     (case required raw defaultSection ''host'' of Inl e \<Rightarrow> Inl e | Inr host \<Rightarrow>
     (case requiredInt raw defaultSection ''port'' of Inl e \<Rightarrow> Inl e | Inr port \<Rightarrow>
     (let secure = boolean raw defaultSection ''is_secure'' False;
          verify = boolean raw defaultSection ''ssl_verify'' False;
          style = get_or raw defaultSection ''addressing_style'' [] in
      if style \<notin> {[], ''path'', ''virtual''} then Inl (BadAddressingStyle style) else
      (case read_user raw sectionMain of Inl e \<Rightarrow> Inl e | Inr main \<Rightarrow>
      (case read_user raw sectionAlt of Inl e \<Rightarrow> Inl e | Inr alt \<Rightarrow>
      (case read_user raw sectionTenant of Inl e \<Rightarrow> Inl e | Inr tenant \<Rightarrow>
      (case required raw sectionTenant ''tenant'' of Inl e \<Rightarrow> Inl e | Inr name \<Rightarrow>
      (case BucketPrefix draws (get_or raw ''fixtures'' ''bucket prefix'' ''test-{random}-'') of
         Inl e \<Rightarrow> Inl e
       | Inr prefix \<Rightarrow> Inr
           \<lparr>Endpoint = endpoint_of secure host port, Host = host, Port = port, IsSecure = secure,
            SSLVerify = verify, VirtualHost = (style = ''virtual''),
            APIName = get_or raw sectionMain ''api_name'' [],
            Main = main, Alt = alt, Tenant = tenant, TenantName = name, BucketPrefixName = prefix,
            KMSKeyID = get_or raw sectionMain ''kms_keyid'' ''testkey-1'',
            SecondaryKMSKeyID = get_or raw sectionMain ''kms_keyid2'' ''testkey-2''\<rparr>)))))))))"

definition load_config :: "(nat \<Rightarrow> nat) \<Rightarrow> go_reader \<Rightarrow> (config_error, config) res" where
  "load_config draws r = (case parseINI r of Inl e \<Rightarrow> Inl (ParseConfig e) | Inr raw \<Rightarrow> build draws raw)"

text \<open>\<open>os.Open\<close> is a parameter: what a path opens to, \<open>None\<close> when it fails.\<close>

definition Load :: "(nat \<Rightarrow> nat) \<Rightarrow> (gostring \<Rightarrow> go_reader option) \<Rightarrow> gostring \<Rightarrow> (config_error, config) res" where
  "Load draws open_file path = (case open_file path of None \<Rightarrow> Inl OpenConfig | Some r \<Rightarrow> load_config draws r)"

subsection \<open>What a usable configuration has\<close>

lemma required_Inr: "required raw s k = Inr v \<longleftrightarrow> ini_get raw s k = Some v \<and> v \<noteq> []"
  by (auto simp: required_def split: option.splits)

lemma required_Inl: "(\<exists>e. required raw s k = Inl e) \<longleftrightarrow> ini_get raw s k \<in> {None, Some []}"
  by (auto simp: required_def split: option.splits)

definition present :: "ini \<Rightarrow> gostring \<Rightarrow> gostring \<Rightarrow> bool" where
  "present raw s k \<longleftrightarrow> ini_get raw s k \<notin> {None, Some []}"

lemma required_present: "present raw s k \<longleftrightarrow> (\<exists>v. required raw s k = Inr v)"
  by (auto simp: present_def required_def split: option.splits)

definition user_keys :: "gostring list" where
  "user_keys = [''access_key'', ''secret_key'', ''display_name'', ''user_id'', ''email'']"

lemma read_user_total: "(\<exists>u. read_user raw s = Inr u) \<longleftrightarrow> (\<forall>k \<in> set user_keys. present raw s k)"
  unfolding read_user_def user_keys_def required_present by (auto split: sum.splits)

lemma missing_section_None:
  "missing_section raw = None \<longleftrightarrow> (\<forall>s \<in> {sectionMain, sectionAlt, sectionTenant}. ini_has raw s)"
  by (auto simp: missing_section_def)

definition prefix_template :: "ini \<Rightarrow> gostring" where
  "prefix_template raw = get_or raw ''fixtures'' ''bucket prefix'' ''test-{random}-''"

definition usable :: "ini \<Rightarrow> bool" where
  "usable raw \<longleftrightarrow>
     (\<forall>s \<in> {sectionMain, sectionAlt, sectionTenant}. ini_has raw s \<and> (\<forall>k \<in> set user_keys. present raw s k)) \<and>
     present raw defaultSection ''host'' \<and> (\<exists>v. ini_get raw defaultSection ''port'' = Some v \<and> v \<noteq> [] \<and> go_atoi v \<noteq> None) \<and>
     get_or raw defaultSection ''addressing_style'' [] \<in> {[], ''path'', ''virtual''} \<and>
     present raw sectionTenant ''tenant'' \<and>
     length (str_replace_all (prefix_template raw) placeholder []) \<le> maxPrefixLen"

lemma requiredInt_Inr:
  "requiredInt raw s k = Inr n \<longleftrightarrow> (\<exists>v. ini_get raw s k = Some v \<and> v \<noteq> [] \<and> go_atoi v = Some n)"
  by (auto simp: requiredInt_def required_def split: option.splits sum.splits)

lemma BucketPrefix_total:
  "(\<exists>p. BucketPrefix draws t = Inr p) \<longleftrightarrow> length (str_replace_all t placeholder []) \<le> maxPrefixLen"
  by (simp add: BucketPrefix_def Let_def)

lemma build_total: "(\<exists>cfg. build draws raw = Inr cfg) \<longleftrightarrow> usable raw"
proof -
  have port: "(\<exists>v. ini_get raw defaultSection ''port'' = Some v \<and> v \<noteq> [] \<and> go_atoi v \<noteq> None) \<longleftrightarrow>
      (\<exists>n. requiredInt raw defaultSection ''port'' = Inr n)"
    by (auto simp: requiredInt_Inr)
  show ?thesis
    unfolding usable_def port read_user_total [symmetric]
    unfolding required_present [of raw defaultSection "''host''"] required_present [of raw sectionTenant "''tenant''"]
      prefix_template_def BucketPrefix_total [symmetric, of _ draws]
    using missing_section_None [of raw]
    unfolding build_def Let_def
    by (auto split: option.splits sum.splits)
qed

text \<open>
  C29. A configuration is accepted exactly when it is usable: the three user sections exist and name
  all five credentials, host, tenant and a numeric port are given (directly or by DEFAULT), the
  addressing style is a known one and the fixed part of the prefix template fits.
\<close>

theorem build_accepts: "(\<exists>cfg. build draws raw = Inr cfg) \<longleftrightarrow> usable raw"
  by (rule build_total)

text \<open>
  An accepted configuration carries what the file says: host, port, credentials and tenant are the
  non-empty values looked up, and the endpoint is scheme, host and port put together.
\<close>

theorem build_values:
  assumes "build draws raw = Inr cfg"
  shows "ini_get raw defaultSection ''host'' = Some (Host cfg) \<and> Host cfg \<noteq> [] \<and>
    (\<exists>v. ini_get raw defaultSection ''port'' = Some v \<and> go_atoi v = Some (Port cfg)) \<and>
    Endpoint cfg = (if IsSecure cfg then ''https://'' else ''http://'') @ Host cfg @ '':'' @ int_dec (Port cfg) \<and>
    read_user raw sectionMain = Inr (Main cfg) \<and> read_user raw sectionAlt = Inr (Alt cfg) \<and>
    read_user raw sectionTenant = Inr (Tenant cfg) \<and>
    ini_get raw sectionTenant ''tenant'' = Some (TenantName cfg) \<and> TenantName cfg \<noteq> [] \<and>
    BucketPrefix draws (prefix_template raw) = Inr (BucketPrefixName cfg)"
  using assms unfolding build_def Let_def prefix_template_def
  by (auto simp: required_Inr requiredInt_Inr endpoint_of_def split: option.splits sum.splits if_splits)

subsection \<open>Numbers\<close>

text \<open>
  \<open>strconv.Atoi\<close> reads back every 64-bit integer printed in decimal, and nothing it reads is out
  of that range.
\<close>

theorem go_atoi_int_dec:
  "go_atoi (int_dec n) = (if - (2 ^ 63) \<le> n \<and> n < 2 ^ 63 then Some n else None) \<and>
   (\<forall>m. go_atoi s = Some m \<longrightarrow> - (2 ^ 63) \<le> m \<and> m < 2 ^ 63)"
proof
  have digits: "list_all is_digit_ascii (nat_dec k)" for k
    using nat_dec_digits by (auto simp: list_all_iff)
  have sign: "\<not> has_prefix (nat_dec k) ''-''" "\<not> has_prefix (nat_dec k) ''+''" for k
  proof -
    have "is_digit_ascii (hd (nat_dec k))" using nat_dec_digits [of "hd (nat_dec k)" k] by simp
    then have "hd (nat_dec k) \<noteq> CHR ''-''" "hd (nat_dec k) \<noteq> CHR ''+''"
      by (auto simp: is_digit_ascii_def in_byte_range_def byte_def)
    then show "\<not> has_prefix (nat_dec k) ''-''" "\<not> has_prefix (nat_dec k) ''+''"
      by (cases "nat_dec k"; simp add: has_prefix_def)+
  qed
  have neg: "has_prefix (''-'' @ t) ''-''" for t by (rule has_prefix_append)
  show "go_atoi (int_dec n) = (if - (2 ^ 63) \<le> n \<and> n < 2 ^ 63 then Some n else None)"
  proof (cases "n < 0")
    case True
    then show ?thesis using neg [of "nat_dec (nat (- n))"] digits
      by (simp add: go_atoi_def int_dec_def Let_def)
  next
    case False
    then show ?thesis using sign digits by (simp add: go_atoi_def int_dec_def Let_def)
  qed
  show "\<forall>m. go_atoi s = Some m \<longrightarrow> - (2 ^ 63) \<le> m \<and> m < 2 ^ 63"
    by (auto simp: go_atoi_def Let_def split: if_splits)
qed

subsection \<open>Length of the prefix\<close>

text \<open>\<open>strings.Count\<close>: how many replacements \<open>ReplaceAll\<close> makes.\<close>

function count_occurrences :: "gostring \<Rightarrow> gostring \<Rightarrow> nat" where
  "count_occurrences s old =
     (if s = [] then 0
      else if old \<noteq> [] \<and> has_prefix s old then Suc (count_occurrences (drop (length old) s) old)
      else count_occurrences (tl s) old)"
  by pat_completeness auto
termination
  by (relation "measure (\<lambda>(s, old). length s)") auto

declare count_occurrences.simps [simp del]

lemma length_replace_all:
  "length (str_replace_all s old new) = length (str_replace_all s old []) + count_occurrences s old * length new"
proof (induction s old rule: count_occurrences.induct)
  case (1 s old)
  then show ?case
    by (subst (1 2) str_replace_all.simps, subst count_occurrences.simps) auto
qed

lemma count_zero: "count_occurrences s old = 0 \<Longrightarrow> str_replace_all s old new = s"
proof (induction s old rule: count_occurrences.induct)
  case (1 s old)
  then show ?case
    by (subst str_replace_all.simps) (auto simp: count_occurrences.simps [of s old] split: if_splits)
qed

lemma count_pos_iff: "old \<noteq> [] \<Longrightarrow> 0 < count_occurrences s old \<longleftrightarrow> str_contains s old"
proof (induction s old rule: count_occurrences.induct)
  case (1 s old)
  show ?case
  proof (cases s)
    case Nil
    then show ?thesis using 1 by (simp add: count_occurrences.simps str_contains_def)
  next
    case (Cons c s')
    then show ?thesis using 1 by (auto simp: count_occurrences.simps [of "c # s'"] str_contains_def)
  qed
qed

lemma length_randomString [simp]: "length (randomString draws n) = n"
  by (simp add: randomString_def)

lemma placeholder_nonempty [simp]: "placeholder \<noteq> []"
  by (simp add: placeholder_def)

text \<open>
  The prefix made from a template has exactly the fixed text plus, for each placeholder, as many
  random characters as would fill one placeholder: a template with one placeholder gives exactly
  30 characters, one without keeps its length.
\<close>

theorem BucketPrefix_length:
  assumes "BucketPrefix draws t = Inr p"
  shows "length p = (let fixed = length (str_replace_all t placeholder []) in
      fixed + count_occurrences t placeholder * (maxPrefixLen - fixed)) \<and>
    (count_occurrences t placeholder \<le> 1 \<longrightarrow> length p \<le> maxPrefixLen) \<and>
    (count_occurrences t placeholder = 1 \<longrightarrow> length p = maxPrefixLen)"
proof -
  let ?fixed = "length (str_replace_all t placeholder [])"
  let ?n = "count_occurrences t placeholder"
  have fit: "?fixed \<le> maxPrefixLen" using assms BucketPrefix_total [of draws t] by auto
  have len: "length p = ?fixed + ?n * (maxPrefixLen - ?fixed)"
  proof (cases "str_contains t placeholder")
    case True
    then have "p = str_replace_all t placeholder (randomString draws (maxPrefixLen - ?fixed))"
      using assms fit by (simp add: BucketPrefix_def Let_def)
    then show ?thesis using length_replace_all [of t placeholder "randomString draws (maxPrefixLen - ?fixed)"]
      by simp
  next
    case False
    then have "?n = 0" using count_pos_iff [of placeholder t] by simp
    moreover have "p = t" using assms fit False by (simp add: BucketPrefix_def Let_def)
    ultimately show ?thesis using count_zero [of t placeholder "[]"] by simp
  qed
  have "?n = 0 \<or> ?n = 1" if "?n \<le> 1" using that by linarith
  with len fit show ?thesis by (auto simp: Let_def)
qed

text \<open>
  The cap on the generated prefix does not hold for a template with two placeholders: each of them
  is filled with all the room that is left.
\<close>

theorem BucketPrefix_exceeds_cap:
  "\<exists>draws p. BucketPrefix draws ''{random}-{random}'' = Inr p \<and> maxPrefixLen < length p"
proof -
  have "\<exists>p. BucketPrefix (\<lambda>_. 0) ''{random}-{random}'' = Inr p"
    unfolding BucketPrefix_total
    by (simp add: str_replace_all.simps placeholder_def has_prefix_def maxPrefixLen_def)
  then obtain p where p: "BucketPrefix (\<lambda>_. 0) ''{random}-{random}'' = Inr p" by blast
  then have "length p = 59"
    by (auto simp: BucketPrefix_def Let_def length_replace_all [of _ placeholder "randomString _ _"]
        split: if_splits)
      (simp_all add: str_replace_all.simps count_occurrences.simps str_contains_def
        placeholder_def has_prefix_def maxPrefixLen_def)
  then have "maxPrefixLen < length p" by (simp add: maxPrefixLen_def)
  with p show ?thesis by blast
qed

section \<open>Examples\<close>

definition example_ini :: go_reader where
  "example_ini = \<lparr>rd_data = unlines [''k=u'', ''[a]'', ''K : v'', ''k=w''], rd_err = None\<rparr>"

lemma example_lines: "scan_lines example_ini = ([''k=u'', ''[a]'', ''K : v'', ''k=w''], None)"
  by (simp add: scan_lines_def example_ini_def, rule scan_loop_unlines)
    (simp add: plain_line_def max_scan_token_def byte_def)

lemma example_read:
  "read_line ''k=u'' = Assign ''k'' ''u''" "read_line ''[a]'' = Header ''a''"
  "read_line ''K : v'' = Assign ''k'' ''v''" "read_line ''k=w'' = Assign ''k'' ''w''"
  by (simp_all add: read_line_def trim_space_def trim_left_space.simps trim_right_rev.simps
      splitKeyValue_def has_prefix_def has_suffix_def is_ascii_space_def in_byte_range_def byte_def
      to_lower_def lower_byte_def is_upper_ascii_def is_space2_def is_space3_def char_of_def bit_Suc_0_iff)

definition example_parsed :: ini where
  "example_parsed = set_value ''a'' ''k'' ''w'' (set_value ''a'' ''k'' ''v''
     (open_section ''a'' (set_value defaultSection ''k'' ''u'' ini_empty)))"

lemma example_parse: "parseINI example_ini = Inr example_parsed"
  by (simp add: parseINI_def example_lines example_read example_parsed_def)

theorem parseINI_meaning_witness:
  "ini_get example_parsed ''a'' ''k'' = Some ''w'' \<and> ini_get example_parsed ''b'' ''k'' = Some ''u'' \<and>
    \<not> ini_has example_parsed ''b''"
  using parseINI_meaning [OF example_parse, of "''a''" "''k''"]
    parseINI_meaning [OF example_parse, of "''b''" "''k''"]
  by (simp add: example_lines example_read defaultSection_def Let_def headers_of_def)

definition example_config :: ini where
  "example_config = \<lparr>sections = (\<lambda>s.
     if s = defaultSection then Some [''host'' \<mapsto> ''h'', ''port'' \<mapsto> ''80'']
     else if s \<in> {sectionMain, sectionAlt, sectionTenant}
       then Some (\<lambda>k. if k \<in> set user_keys then Some k else if k = ''tenant'' then Some ''t'' else None)
     else None)\<rparr>"

lemma section_names [simp]:
  "sectionMain \<noteq> defaultSection" "sectionAlt \<noteq> defaultSection" "sectionTenant \<noteq> defaultSection"
  by (simp_all add: sectionMain_def sectionAlt_def sectionTenant_def defaultSection_def)

lemma example_config_user:
  assumes "s \<in> {sectionMain, sectionAlt, sectionTenant}"
  shows "ini_has example_config s" "k \<in> set user_keys \<Longrightarrow> present example_config s k"
proof -
  have "s \<noteq> defaultSection" using assms by (elim insertE) simp_all
  then have s: "sections example_config s = Some (\<lambda>k. if k \<in> set user_keys then Some k
      else if k = ''tenant'' then Some ''t'' else None)"
    unfolding example_config_def using assms by simp
  then show "ini_has example_config s" by (simp add: ini_has_def)
  have "[] \<notin> set user_keys" by (simp add: user_keys_def)
  then show "present example_config s k" if "k \<in> set user_keys"
  proof -
    have "section_value example_config s k = Some k" using s that by (simp add: section_value_def)
    then have "ini_get example_config s k = Some k" by (simp add: ini_get_def)
    then show ?thesis using \<open>[] \<notin> set user_keys\<close> that by (cases k) (auto simp: present_def)
  qed
qed

lemma example_config_get:
  "ini_get example_config defaultSection ''host'' = Some ''h''"
  "ini_get example_config defaultSection ''port'' = Some ''80''"
  "ini_get example_config sectionTenant ''tenant'' = Some ''t''"
  "ini_get example_config defaultSection ''addressing_style'' = None"
  by (simp_all add: ini_get_def section_value_def example_config_def user_keys_def)

lemma example_config_template: "prefix_template example_config = ''test-{random}-''"
  by (simp add: prefix_template_def get_or_def ini_get_def section_value_def example_config_def
      defaultSection_def sectionMain_def sectionAlt_def sectionTenant_def)

lemma example_config_usable: "usable example_config"
proof -
  have "go_atoi ''80'' = Some 80"
    by (simp add: go_atoi_def has_prefix_def is_digit_ascii_def in_byte_range_def byte_def dec_value_def)
  moreover have "length (str_replace_all ''test-{random}-'' placeholder []) \<le> maxPrefixLen"
    by (simp add: str_replace_all.simps placeholder_def has_prefix_def maxPrefixLen_def)
  ultimately show ?thesis using example_config_user
    unfolding usable_def by (auto simp: example_config_get example_config_template get_or_def present_def)
qed

theorem build_values_witness: "\<exists>cfg. build (\<lambda>_. 0) example_config = Inr cfg \<and> Host cfg = ''h''"
proof -
  obtain cfg where cfg: "build (\<lambda>_. 0) example_config = Inr cfg"
    using example_config_usable build_total by blast
  from build_values [OF this] have "Host cfg = ''h''" by (simp add: example_config_get)
  with cfg show ?thesis by blast
qed

theorem BucketPrefix_length_witness:
  "\<exists>p. BucketPrefix (\<lambda>_. 0) ''a-{random}'' = Inr p \<and> length p = maxPrefixLen"
proof -
  have "\<exists>p. BucketPrefix (\<lambda>_. 0) ''a-{random}'' = Inr p"
    unfolding BucketPrefix_total
    by (simp add: str_replace_all.simps placeholder_def has_prefix_def maxPrefixLen_def)
  moreover have "count_occurrences ''a-{random}'' placeholder = 1"
    by (simp add: count_occurrences.simps placeholder_def has_prefix_def)
  ultimately show ?thesis using BucketPrefix_length [of "\<lambda>_. 0" "''a-{random}''"] by blast
qed

definition sample_lines :: "gostring list" where
  "sample_lines = [''host=h'', ''port=80'', ''access_key=a'', ''secret_key=s'', ''display_name=d'',
     ''user_id=u'', ''email=e'', ''tenant=t'', ''[s3 main]'', ''[s3 alt]'', ''[s3 tenant]'']"

definition sample_conf :: go_reader where
  "sample_conf = \<lparr>rd_data = unlines sample_lines, rd_err = None\<rparr>"

lemma sample_scan: "scan_lines sample_conf = (sample_lines, None)"
  by (simp add: scan_lines_def sample_conf_def, rule scan_loop_unlines)
    (simp add: sample_lines_def plain_line_def max_scan_token_def byte_def)

lemma sample_read:
  "map read_line sample_lines = [Assign ''host'' ''h'', Assign ''port'' ''80'', Assign ''access_key'' ''a'',
     Assign ''secret_key'' ''s'', Assign ''display_name'' ''d'', Assign ''user_id'' ''u'', Assign ''email'' ''e'',
     Assign ''tenant'' ''t'', Header ''s3 main'', Header ''s3 alt'', Header ''s3 tenant'']"
  by code_simp

text \<open>A file with every value in DEFAULT, and how its lines are read one after the other.\<close>

fun run_lines :: "gostring \<Rightarrow> ini \<Rightarrow> ini_line list \<Rightarrow> ini" where
  "run_lines sec c [] = c"
| "run_lines sec c (Assign k v # ls) = run_lines sec (set_value sec k v c) ls"
| "run_lines sec c (Header n # ls) = run_lines n (open_section n c) ls"
| "run_lines sec c (l # ls) = run_lines sec c ls"

lemma parse_lines_run:
  "\<forall>l \<in> set (map read_line ls). l \<noteq> BadHeader \<and> l \<noteq> BadLine \<Longrightarrow>
    parse_lines n sec c ls = Inr (run_lines sec c (map read_line ls))"
  by (induction ls arbitrary: n sec c) (auto split: ini_line.splits)

lemma sample_usable: "\<exists>raw. parseINI sample_conf = Inr raw \<and> usable raw \<and> ini_get raw defaultSection ''host'' = Some ''h''"
proof -
  let ?raw = "run_lines defaultSection ini_empty (map read_line sample_lines)"
  have p: "parseINI sample_conf = Inr ?raw"
    using parse_lines_run [of sample_lines 1 defaultSection ini_empty]
    by (simp add: parseINI_def sample_scan sample_read)
  have atoi: "go_atoi ''80'' = Some 80" by code_simp
  have tmpl: "length (str_replace_all ''test-{random}-'' placeholder []) \<le> maxPrefixLen" by code_simp
  have get: "ini_get ?raw s k = map_of [(''host'', ''h''), (''port'', ''80''), (''access_key'', ''a''), (''secret_key'', ''s''),
      (''display_name'', ''d''), (''user_id'', ''u''), (''email'', ''e''), (''tenant'', ''t'')] k" for s k
    unfolding sample_read
    by (simp add: set_value_def open_section_def ini_empty_def ini_get_def section_value_def defaultSection_def)
  have has: "ini_has ?raw s" if "s \<in> {sectionMain, sectionAlt, sectionTenant}" for s
    using that unfolding sample_read
    by (auto simp: set_value_def open_section_def ini_empty_def ini_has_def sectionMain_def sectionAlt_def sectionTenant_def defaultSection_def)
  have "usable ?raw"
    unfolding usable_def present_def get_or_def prefix_template_def get
    using has atoi tmpl by (auto simp: user_keys_def)
  with p show ?thesis unfolding get by (intro exI conjI) (assumption | simp add: get)+
qed

end
