(* ===== verification/Client.thy ===== *)
theory Client
  imports SigV2 Config
begin

text \<open>
  The S3 clients (\<open>internal/client\<close>): the per-call options that edit a request or the SDK's
  middleware stack (\<open>headers.go\<close>), the transport that writes a request by hand
  (\<open>contentlength.go\<close>), the clients built for the configured users (\<open>client.go\<close>) and the status of a
  response (\<open>status.go\<close>). The SDK is not modelled: a client is the options handed to it, an edit is
  the call made on its stack, and what a stack does with its edits is a parameter.
\<close>

section \<open>Options\<close>

type_synonym transformer = "request \<Rightarrow> request"

datatype position = Before | After

datatype stack_edit =
    FinalizeAdd position gostring transformer
  | FinalizeInsert gostring position gostring transformer
  | FinalizeSwap gostring gostring transformer
  | BuildAdd position gostring transformer
  | DeserializeAdd position gostring

datatype checksum_mode = WhenSupported | WhenRequired

datatype transport = SharedTransport | RawTransport "gostring option" bool

record s3_options =
  oRegion :: gostring
  oCredentials :: "(gostring \<times> gostring) option"
  oRetries :: bool
  oRequestChecksum :: checksum_mode
  oResponseChecksum :: checksum_mode
  oBaseEndpoint :: gostring
  oUsePathStyle :: bool
  oHTTPClient :: transport
  oEdits :: "stack_edit list"

type_synonym s3_option = "s3_options \<Rightarrow> s3_options"

definition add_edit :: "stack_edit \<Rightarrow> s3_option" where
  "add_edit e ops = ops\<lparr>oEdits := oEdits ops @ [e]\<rparr>"

definition WithHeaders :: "(gostring \<times> gostring) list \<Rightarrow> s3_option" where
  "WithHeaders h = add_edit (FinalizeAdd Before ''s3t:SetHeaders'' (setHeaders h))"

definition WithoutRequestChecksum :: s3_option where
  "WithoutRequestChecksum ops = ops\<lparr>oRequestChecksum := WhenRequired\<rparr>"

definition WithoutHeader :: "gostring list \<Rightarrow> s3_option" where
  "WithoutHeader names = add_edit (FinalizeAdd Before ''s3t:RemoveHeaders'' (removeHeaders names))"

definition setQuery :: "(gostring \<times> gostring) list \<Rightarrow> transformer" where
  "setQuery params req =
     req\<lparr>rqRawQuery := encode_query
        (foldl (\<lambda>q (k, v). query_set k v q) (parse_query (rqRawQuery req)) params)\<rparr>"

definition WithQuery :: "(gostring \<times> gostring) list \<Rightarrow> s3_option" where
  "WithQuery params = add_edit (BuildAdd After ''s3t:SetQuery'' (setQuery params))"

definition pathReplace :: "gostring \<Rightarrow> gostring \<Rightarrow> transformer" where
  "pathReplace old replacement req =
     req\<lparr>rqHost := str_replace_first (rqHost req) old replacement,
         rqPath := str_replace_first (rqPath req) old replacement, rqRawPath := []\<rparr>"

definition WithPathReplace :: "gostring \<Rightarrow> gostring \<Rightarrow> s3_option" where
  "WithPathReplace old replacement =
     add_edit (FinalizeInsert ''Signing'' Before ''s3t:PathReplace'' (pathReplace old replacement))"

definition chunked :: transformer where
  "chunked req = req\<lparr>rqContentLength := - 1, rqHeader := header_del ''Content-Length'' (rqHeader req)\<rparr>"

definition WithChunkedTransferEncoding :: s3_option where
  "WithChunkedTransferEncoding = add_edit (FinalizeInsert ''Signing'' Before ''s3t:Chunked'' chunked)"

definition WithHeadersAfterSigning :: "(gostring \<times> gostring) list \<Rightarrow> s3_option" where
  "WithHeadersAfterSigning h =
     add_edit (FinalizeInsert ''Signing'' After ''s3t:SetHeadersAfterSigning'' (setHeaders h))"

definition WithoutHeaderAfterSigning :: "gostring list \<Rightarrow> s3_option" where
  "WithoutHeaderAfterSigning names =
     add_edit (FinalizeInsert ''Signing'' After ''s3t:RemoveHeadersAfterSigning'' (removeHeaders names))"

section \<open>Clients for the configured users\<close>

definition signingRegion :: gostring where
  "signingRegion = ''us-east-1''"

record timeouts =
  toRequest :: int
  toDial :: int
  toTLSHandshake :: int
  toResponseHeader :: int

definition DefaultTimeouts :: timeouts where
  "DefaultTimeouts = \<lparr>toRequest = 60 * 1000000000, toDial = 10 * 1000000000,
     toTLSHandshake = 10 * 1000000000, toResponseHeader = 30 * 1000000000\<rparr>"

text \<open>
  The client of \<open>net/http\<close> that all clients of a factory share: its transport's settings and timeouts.
  A virtual-host run dials the configured host for every name under it.
\<close>

record http_client =
  hcMaxIdleConnsPerHost :: nat
  hcDialTimeout :: int
  hcVirtualHostOf :: "gostring option"
  hcTLSHandshakeTimeout :: int
  hcResponseHeaderTimeout :: int
  hcInsecureSkipVerify :: bool
  hcMinVersion :: nat
  hcTimeout :: int

record factory =
  fCfg :: config
  fHTTP :: http_client

text \<open>TLS 1.2, as its number on the wire.\<close>

definition VersionTLS12 :: nat where
  "VersionTLS12 = 771"

definition NewWithTimeouts :: "config \<Rightarrow> timeouts \<Rightarrow> factory" where
  "NewWithTimeouts cfg t = \<lparr>fCfg = cfg, fHTTP =
     \<lparr>hcMaxIdleConnsPerHost = 64, hcDialTimeout = toDial t,
      hcVirtualHostOf = (if VirtualHost cfg then Some (Host cfg) else None),
      hcTLSHandshakeTimeout = toTLSHandshake t, hcResponseHeaderTimeout = toResponseHeader t,
      hcInsecureSkipVerify = (\<not> SSLVerify cfg), hcMinVersion = VersionTLS12, hcTimeout = toRequest t\<rparr>\<rparr>"

definition NewFactory :: "config \<Rightarrow> factory" where
  "NewFactory cfg = NewWithTimeouts cfg DefaultTimeouts"

definition captureStatusEdit :: stack_edit where
  "captureStatusEdit = DeserializeAdd Before ''s3t:CaptureStatus''"

definition clientOptions :: "factory \<Rightarrow> (gostring \<times> gostring) option \<Rightarrow> s3_options" where
  "clientOptions f creds = \<lparr>oRegion = signingRegion, oCredentials = creds, oRetries = False,
     oRequestChecksum = WhenSupported, oResponseChecksum = WhenSupported,
     oBaseEndpoint = Endpoint (fCfg f), oUsePathStyle = (\<not> VirtualHost (fCfg f)),
     oHTTPClient = SharedTransport, oEdits = [captureStatusEdit]\<rparr>"

definition forUser :: "factory \<Rightarrow> gostring \<Rightarrow> gostring \<Rightarrow> s3_option list \<Rightarrow> s3_options" where
  "forUser f access secret opts = foldl (\<lambda>o' g. g o') (clientOptions f (Some (access, secret))) opts"

definition MainClient :: "factory \<Rightarrow> s3_options" where
  "MainClient f = forUser f (AccessKey (Main (fCfg f))) (SecretKey (Main (fCfg f))) []"

definition AltClient :: "factory \<Rightarrow> s3_options" where
  "AltClient f = forUser f (AccessKey (Alt (fCfg f))) (SecretKey (Alt (fCfg f))) []"

definition TenantClient :: "factory \<Rightarrow> s3_options" where
  "TenantClient f = forUser f (AccessKey (Tenant (fCfg f))) (SecretKey (Tenant (fCfg f))) []"

definition HTTP :: "factory \<Rightarrow> http_client" where
  "HTTP f = fHTTP f"

text \<open>A presigner signs with the options of the client it is made of.\<close>

datatype presigner = NewPresignClient s3_options

definition Presign :: "factory \<Rightarrow> presigner" where
  "Presign f = NewPresignClient (MainClient f)"

definition PresignTenant :: "factory \<Rightarrow> presigner" where
  "PresignTenant f = NewPresignClient (TenantClient f)"

definition BadAuth :: "factory \<Rightarrow> gostring \<Rightarrow> s3_options" where
  "BadAuth f access = forUser f access ''roflmao'' []"

definition Anonymous :: "factory \<Rightarrow> s3_options" where
  "Anonymous f = clientOptions f None"

definition signV2Option :: "user \<Rightarrow> gostring \<Rightarrow> s3_option" where
  "signV2Option u now = add_edit
     (FinalizeSwap ''Signing'' ''s3t:SignV2'' (signV2 (AccessKey u) (SecretKey u) now))"

definition V2 :: "factory \<Rightarrow> gostring \<Rightarrow> s3_options" where
  "V2 f now = (let u = Main (fCfg f) in
     forUser f (AccessKey u) (SecretKey u) [signV2Option u now, WithoutRequestChecksum])"

subsection \<open>Dialing a virtual host\<close>

definition last_colon :: "gostring \<Rightarrow> (gostring \<times> gostring) option" where
  "last_colon s =
     (let tail = takeWhile (\<lambda>c. c \<noteq> CHR '':'') (rev s) in
      if length tail = length s then None
      else Some (take (length s - length tail - 1) s, rev tail))"

text \<open>\<open>net.SplitHostPort\<close>, with \<open>None\<close> for its errors, and \<open>net.JoinHostPort\<close>.\<close>

definition split_host_port :: "gostring \<Rightarrow> (gostring \<times> gostring) option" where
  "split_host_port hp = (case last_colon hp of None \<Rightarrow> None | Some (before, port) \<Rightarrow>
     (if has_prefix hp ''['' then
        (case str_index hp '']'' of None \<Rightarrow> None | Some end_ \<Rightarrow>
          if end_ + 1 \<noteq> length before then None
          else let host = take (end_ - 1) (drop 1 hp) in
            if CHR ''['' \<in> set (drop 1 hp) \<or> CHR '']'' \<in> set (drop (end_ + 1) hp) then None
            else Some (host, port))
      else if CHR '':'' \<in> set before then None
      else if CHR ''['' \<in> set hp \<or> CHR '']'' \<in> set hp then None
      else Some (before, port)))"

definition join_host_port :: "gostring \<Rightarrow> gostring \<Rightarrow> gostring" where
  "join_host_port host port =
     (if CHR '':'' \<in> set host then ''['' @ host @ '']:'' @ port else host @ '':'' @ port)"

definition rewrite_dial :: "factory \<Rightarrow> gostring \<Rightarrow> gostring" where
  "rewrite_dial f addr =
     (case hcVirtualHostOf (fHTTP f) of
        None \<Rightarrow> addr
      | Some host \<Rightarrow> (case split_host_port addr of
            None \<Rightarrow> addr
          | Some (h, port) \<Rightarrow> if has_suffix h (''.'' @ host) then join_host_port host port else addr))"

section \<open>Responses\<close>

text \<open>
  An error of the SDK is a chain of wrapped errors; a layer may be a response error with a status and
  may be an API error with a code. \<open>errors.As\<close> takes the first that matches.
\<close>

record err_layer =
  elStatus :: "int option"
  elCode :: "gostring option"

fun first_some :: "('b \<Rightarrow> 'a option) \<Rightarrow> 'b list \<Rightarrow> 'a option" where
  "first_some f [] = None"
| "first_some f (x # xs) = (case f x of Some y \<Rightarrow> Some y | None \<Rightarrow> first_some f xs)"

definition StatusAndCode :: "err_layer list option \<Rightarrow> int \<times> gostring" where
  "StatusAndCode err = (case err of
       None \<Rightarrow> (0, [])
     | Some layers \<Rightarrow>
         ((case first_some elStatus layers of None \<Rightarrow> 0 | Some st \<Rightarrow> st),
          (case first_some elCode layers of None \<Rightarrow> [] | Some c \<Rightarrow> c)))"

type_synonym metadata = "int option"

definition captureStatus :: "int option \<Rightarrow> metadata \<Rightarrow> metadata" where
  "captureStatus raw md = (case raw of None \<Rightarrow> md | Some st \<Rightarrow> Some st)"

definition Status :: "metadata \<Rightarrow> int" where
  "Status md = (case md of None \<Rightarrow> 0 | Some st \<Rightarrow> st)"

section \<open>Writing a request by hand\<close>

definition rawTransport :: "factory \<Rightarrow> gostring option \<Rightarrow> s3_option" where
  "rawTransport f contentLength ops = ops\<lparr>oHTTPClient := RawTransport contentLength (\<not> SSLVerify (fCfg f))\<rparr>"

definition WithContentLength :: "factory \<Rightarrow> gostring \<Rightarrow> s3_option" where
  "WithContentLength f v = rawTransport f (Some v)"

definition WithoutContentLength :: "factory \<Rightarrow> s3_option" where
  "WithoutContentLength f = rawTransport f None"

text \<open>\<open>strings.EqualFold\<close> on ASCII text.\<close>

definition equal_fold :: "gostring \<Rightarrow> gostring \<Rightarrow> bool" where
  "equal_fold a b \<longleftrightarrow> to_lower a = to_lower b"

definition framing_header :: "gostring \<Rightarrow> bool" where
  "framing_header name \<longleftrightarrow> equal_fold name ''Host'' \<or> equal_fold name ''Connection'' \<or>
     equal_fold name ''Content-Length''"

definition wire_headers :: "gostring option \<Rightarrow> request \<Rightarrow> (gostring \<times> gostring) list" where
  "wire_headers cl req = [(''Host'', rqHost req), (''Connection'', ''close'')] @
     concat (map (\<lambda>(name, vs). if framing_header name then [] else map (Pair name) vs) (rqHeader req)) @
     (case cl of None \<Rightarrow> [] | Some v \<Rightarrow> [(''Content-Length'', v)])"

definition crlf :: gostring where
  "crlf = [CHR 0x0D, CHR 0x0A]"

definition raw_request :: "gostring option \<Rightarrow> request \<Rightarrow> gostring" where
  "raw_request cl req =
     rqMethod req @ '' '' @ request_uri (rqPath req) (rqRawPath req) (rqRawQuery req) @ '' HTTP/1.1'' @ crlf @
     concat (map (\<lambda>(n, v). n @ '': '' @ v @ crlf) (wire_headers cl req)) @ crlf @ rqBody req"

text \<open>\<open>URL.Port\<close> and \<open>URL.Hostname\<close>.\<close>

definition url_split :: "gostring \<Rightarrow> gostring \<times> gostring" where
  "url_split hp =
     (let (h, p) = (case last_colon hp of
            Some (before, port) \<Rightarrow> if list_all is_digit_ascii port then (before, port) else (hp, [])
          | None \<Rightarrow> (hp, []))
      in (if has_prefix h ''['' \<and> has_suffix h '']'' then take (length h - 2) (drop 1 h) else h, p))"

definition dial_addr :: "request \<Rightarrow> gostring" where
  "dial_addr req =
     (if snd (url_split (rqHost req)) = []
      then join_host_port (rqHost req) (if rqScheme req = ''https'' then ''443'' else ''80'')
      else rqHost req)"

text \<open>
  The network under \<open>rawClient.Do\<close>: what reading the body, dialing, the handshake for a server name,
  writing the bytes and reading the response and its body give.
\<close>

datatype raw_error = RawReadBody | RawDial | RawHandshake | RawWrite | RawReadResponse | RawReadPayload

record 'r raw_net =
  netBody :: "gostring option"
  netDial :: "gostring \<Rightarrow> bool"
  netHandshake :: "gostring \<Rightarrow> bool"
  netWrite :: "gostring \<Rightarrow> bool"
  netResponse :: "gostring \<Rightarrow> 'r option"
  netPayload :: "'r \<Rightarrow> gostring option"

definition rawDo :: "'r raw_net \<Rightarrow> gostring option \<Rightarrow> request \<Rightarrow> (raw_error, 'r \<times> gostring) res" where
  "rawDo net cl req = (case netBody net of None \<Rightarrow> Inl RawReadBody | Some body \<Rightarrow>
     (let bytes = raw_request cl (req\<lparr>rqBody := body\<rparr>) in
      if \<not> netDial net (dial_addr req) then Inl RawDial
      else if rqScheme req = ''https'' \<and> \<not> netHandshake net (fst (url_split (rqHost req))) then Inl RawHandshake
      else if \<not> netWrite net bytes then Inl RawWrite
      else (case netResponse net bytes of None \<Rightarrow> Inl RawReadResponse | Some r \<Rightarrow>
        (case netPayload net r of None \<Rightarrow> Inl RawReadPayload | Some p \<Rightarrow> Inr (r, p)))))"

subsection \<open>Framing\<close>

lemma framing_names:
  "\<not> equal_fold ''Host'' ''Connection''" "\<not> equal_fold ''Host'' ''Content-Length''"
  "\<not> equal_fold ''Connection'' ''Content-Length''" "\<not> equal_fold ''Connection'' ''Host''"
  "\<not> equal_fold ''Content-Length'' ''Host''" "\<not> equal_fold ''Content-Length'' ''Connection''"
  by (simp_all add: equal_fold_def to_lower_def)

lemma equal_fold_refl [simp]: "equal_fold a a"
  by (simp add: equal_fold_def)

lemma filter_skipped:
  assumes "\<And>n. P n \<Longrightarrow> framing_header n"
  shows "filter (\<lambda>(n, _). P n)
    (concat (map (\<lambda>(name, vs). if framing_header name then [] else map (Pair name) vs) h)) = []"
proof (induction h)
  case (Cons e h)
  obtain n vs where e: "e = (n, vs)" by (cases e)
  have "\<not> framing_header n \<Longrightarrow> \<not> P n" using assms by blast
  then have "filter (\<lambda>(n, _). P n) (if framing_header n then [] else map (Pair n) vs) = []"
    by (simp add: filter_empty_conv)
  then show ?case using Cons by (simp add: e)
qed simp

text \<open>
  C31. Whatever headers the SDK put on it, a request written by hand carries exactly one Host and one
  \<open>Connection: close\<close>, and its Content-Length is exactly what the test asked for: one header with that
  very value, or none at all; every other header goes out as it is, in order.
\<close>

theorem wire_headers_framing:
  "filter (\<lambda>(n, _). equal_fold n ''Content-Length'') (wire_headers cl req) =
     (case cl of None \<Rightarrow> [] | Some v \<Rightarrow> [(''Content-Length'', v)]) \<and>
   filter (\<lambda>(n, _). equal_fold n ''Host'') (wire_headers cl req) = [(''Host'', rqHost req)] \<and>
   filter (\<lambda>(n, _). equal_fold n ''Connection'') (wire_headers cl req) = [(''Connection'', ''close'')] \<and>
   filter (\<lambda>(n, _). \<not> framing_header n) (wire_headers cl req) =
     concat (map (\<lambda>(n, vs). map (Pair n) vs) (filter (\<lambda>(n, _). \<not> framing_header n) (rqHeader req)))"
proof (intro conjI)
  have "filter (\<lambda>(n, _). equal_fold n x)
      (concat (map (\<lambda>(name, vs). if framing_header name then [] else map (Pair name) vs) (rqHeader req))) = []"
    if "x \<in> {''Host'', ''Connection'', ''Content-Length''}" for x
    using that by (intro filter_skipped) (auto simp: framing_header_def)
  then show "filter (\<lambda>(n, _). equal_fold n ''Content-Length'') (wire_headers cl req) =
      (case cl of None \<Rightarrow> [] | Some v \<Rightarrow> [(''Content-Length'', v)])"
    "filter (\<lambda>(n, _). equal_fold n ''Host'') (wire_headers cl req) = [(''Host'', rqHost req)]"
    "filter (\<lambda>(n, _). equal_fold n ''Connection'') (wire_headers cl req) = [(''Connection'', ''close'')]"
    by (simp_all add: wire_headers_def framing_names split: option.splits)
  have "filter (\<lambda>(n, _). \<not> framing_header n)
      (concat (map (\<lambda>(n, vs). if framing_header n then [] else map (Pair n) vs) h)) =
    concat (map (\<lambda>(n, vs). map (Pair n) vs) (filter (\<lambda>(n, _). \<not> framing_header n) h))" for h :: header
    by (induction h) (auto simp: filter_map comp_def)
  then show "filter (\<lambda>(n, _). \<not> framing_header n) (wire_headers cl req) =
      concat (map (\<lambda>(n, vs). map (Pair n) vs) (filter (\<lambda>(n, _). \<not> framing_header n) (rqHeader req)))"
    by (simp add: wire_headers_def framing_header_def split: option.splits)
qed

section \<open>What the options do to a request\<close>

text \<open>
  The query parameters a test sets are the ones the server parses: after \<open>WithQuery\<close> a set parameter
  has exactly the value set last, and every other parameter keeps the values it had.
\<close>

theorem setQuery_parsed:
  "query_values (parse_query (rqRawQuery (setQuery params req))) k =
     (case map_of (rev params) k of
        Some v \<Rightarrow> [v]
      | None \<Rightarrow> query_values (parse_query (rqRawQuery req)) k)"
proof -
  have d: "distinct (map fst (foldl (\<lambda>q (k, v). query_set k v q) q params))"
    if "distinct (map fst q)" for q :: query
    using that by (induction params arbitrary: q) (auto simp: distinct_query_set)
  have "query_values (foldl (\<lambda>q (k, v). query_set k v q) q params) k =
      (case map_of (rev params) k of Some v \<Rightarrow> [v] | None \<Rightarrow> query_values q k)" for q :: query
    by (induction params arbitrary: q) (auto simp: query_values_set map_add_def split: option.splits)
  then show ?thesis
    by (simp add: setQuery_def parse_encode_query [OF d [OF distinct_parse_query]])
qed

text \<open>
  A path rewritten by \<open>WithPathReplace\<close> is the path the server sees: the escaped path sent decodes to
  the path with the first occurrence replaced, whatever encoding the SDK had chosen before.
\<close>

theorem pathReplace_sent:
  "url_unescape PathMode (escaped_path (rqPath (pathReplace old new req)) (rqRawPath (pathReplace old new req))) =
     Some (str_replace_first (rqPath req) old new)"
  by (simp add: unescape_escaped_path pathReplace_def)

text \<open>
  What the suite relies on in the SDK's stack: \<open>run es\<close> is the request as sent when the stack was edited
  by \<open>es\<close>; \<open>pre\<close> and \<open>post\<close> are the SDK's own finalize steps around the signer \<open>sign\<close>.
\<close>

definition finalize_laws :: "(stack_edit list \<Rightarrow> transformer) \<Rightarrow> transformer \<Rightarrow> transformer \<Rightarrow> transformer \<Rightarrow> bool" where
  "finalize_laws run pre sign post \<longleftrightarrow>
     (\<forall>p d id f req. run [DeserializeAdd p d, FinalizeAdd Before id f] req = post (sign (pre (f req)))) \<and>
     (\<forall>p d id f req. run [DeserializeAdd p d, FinalizeInsert ''Signing'' Before id f] req = post (sign (f (pre req)))) \<and>
     (\<forall>p d id f req. run [DeserializeAdd p d, FinalizeInsert ''Signing'' After id f] req = post (f (sign (pre req)))) \<and>
     (\<forall>p d id f req. run [DeserializeAdd p d, FinalizeSwap ''Signing'' id f] req = post (f (pre req)))"

definition owns_authorization :: "transformer \<Rightarrow> (request \<Rightarrow> gostring) \<Rightarrow> transformer \<Rightarrow> bool" where
  "owns_authorization sign auth post \<longleftrightarrow>
     (\<forall>req. header_values (rqHeader (sign req)) ''Authorization'' = [auth req]) \<and>
     (\<forall>req. header_values (rqHeader (post req)) ''Authorization'' = header_values (rqHeader req) ''Authorization'')"

definition sent_authorization :: "(stack_edit list \<Rightarrow> transformer) \<Rightarrow> s3_options \<Rightarrow> request \<Rightarrow> gostring list" where
  "sent_authorization run ops req = header_values (rqHeader (run (oEdits ops) req)) ''Authorization''"

lemma client_edits:
  "oEdits (forUser f a s [add_edit e]) = [captureStatusEdit, e]"
  by (simp add: forUser_def clientOptions_def add_edit_def)

lemma authorization_by_stage:
  assumes "finalize_laws run pre sign post" and "owns_authorization sign auth post"
  shows "sent_authorization run (forUser f a s [WithHeaders [(''Authorization'', v)]]) req =
      [auth (pre (setHeaders [(''Authorization'', v)] req))] \<and>
    sent_authorization run (forUser f a s [WithoutHeader [''Authorization'']]) req =
      [auth (pre (removeHeaders [''Authorization''] req))] \<and>
    sent_authorization run (forUser f a s [WithHeadersAfterSigning [(''Authorization'', v)]]) req = [v] \<and>
    sent_authorization run (forUser f a s [WithoutHeaderAfterSigning [''Authorization'']]) req = [] \<and>
    sent_authorization run (forUser f a s [signV2Option u now]) req =
      header_values (rqHeader (signV2 (AccessKey u) (SecretKey u) now (pre req))) ''Authorization''"
proof -
  have own: "header_values (rqHeader (sign r)) ''Authorization'' = [auth r]"
    "header_values (rqHeader (post r)) ''Authorization'' = header_values (rqHeader r) ''Authorization''" for r
    using assms(2) by (auto simp: owns_authorization_def)
  have set: "header_values (rqHeader (setHeaders [(''Authorization'', v)] r)) ''Authorization'' = [v]" for r
    using headers.get_put_all_last [of "[]" "''Authorization''" v "rqHeader r"] by (simp add: rqHeader_setHeaders)
  have del: "header_values (rqHeader (removeHeaders [''Authorization''] r)) ''Authorization'' = []" for r
    by (simp add: rqHeader_removeHeaders headers.get_del_all)
  note laws = assms(1) [unfolded finalize_laws_def]
  show ?thesis
    unfolding sent_authorization_def WithHeaders_def WithoutHeader_def WithHeadersAfterSigning_def
      WithoutHeaderAfterSigning_def signV2Option_def client_edits captureStatusEdit_def
    using laws own set del by simp
qed

lemma removed_after_signing:
  "finalize_laws run pre sign post \<Longrightarrow> owns_authorization sign auth post \<Longrightarrow>
    sent_authorization run (forUser f a s [WithoutHeaderAfterSigning [''Authorization'']]) req = []"
  using authorization_by_stage by blast

text \<open>
  C32. The Authorization header belongs to the signer unless it is changed after signing: set or removed
  before, the signer's own is sent; set after, the test's is; removed after, none is. A v2 client
  sends the v2 signature of the request the SDK prepared.
\<close>

theorem authorization_sent:
  assumes "finalize_laws run pre sign post" and "owns_authorization sign auth post"
  shows "sent_authorization run (forUser f a s [WithHeaders [(''Authorization'', v)]]) req =
      [auth (pre (setHeaders [(''Authorization'', v)] req))] \<and>
    sent_authorization run (forUser f a s [WithoutHeader [''Authorization'']]) req =
      [auth (pre (removeHeaders [''Authorization''] req))] \<and>
    sent_authorization run (forUser f a s [WithHeadersAfterSigning [(''Authorization'', v)]]) req = [v] \<and>
    sent_authorization run (forUser f a s [WithoutHeaderAfterSigning [''Authorization'']]) req = [] \<and>
    sent_authorization run (forUser f a s [signV2Option u now]) req =
      header_values (rqHeader (signV2 (AccessKey u) (SecretKey u) now (pre req))) ''Authorization''"
  by (rule authorization_by_stage [OF assms])

definition example_stack :: "stack_edit list \<Rightarrow> transformer" where
  "example_stack es = (let sign = setHeaders [(''Authorization'', ''sig'')] in case es of
       [DeserializeAdd _ _, FinalizeAdd Before _ f] \<Rightarrow> (\<lambda>req. sign (f req))
     | [DeserializeAdd _ _, FinalizeInsert _ Before _ f] \<Rightarrow> (\<lambda>req. sign (f req))
     | [DeserializeAdd _ _, FinalizeInsert _ After _ f] \<Rightarrow> (\<lambda>req. f (sign req))
     | [DeserializeAdd _ _, FinalizeSwap _ _ f] \<Rightarrow> f
     | _ \<Rightarrow> sign)"

definition example_cfg :: config where
  "example_cfg = (let u = \<lparr>AccessKey = ''a'', SecretKey = ''s'', DisplayName = ''d'', UserID = ''u'', Email = ''e''\<rparr> in
     \<lparr>Endpoint = ''http://h:80'', Host = ''h'', Port = 80, IsSecure = False, SSLVerify = False,
      VirtualHost = True, APIName = [], Main = u, Alt = u, Tenant = u, TenantName = ''t'',
      BucketPrefixName = ''p-'', KMSKeyID = ''k'', SecondaryKMSKeyID = ''l''\<rparr>)"

lemma example_stack_laws:
  "finalize_laws example_stack (\<lambda>r. r) (setHeaders [(''Authorization'', ''sig'')]) (\<lambda>r. r)"
  "owns_authorization (setHeaders [(''Authorization'', ''sig'')]) (\<lambda>_. ''sig'') (\<lambda>r. r)"
  using headers.get_put_all_last [of "[]" "''Authorization''" "''sig''"]
  by (simp_all add: finalize_laws_def example_stack_def owns_authorization_def rqHeader_setHeaders)

theorem authorization_sent_witness:
  "sent_authorization example_stack
     (forUser (NewFactory example_cfg) ''a'' ''s'' [WithHeadersAfterSigning [(''Authorization'', ''none'')]])
     (example_request []) = [''none'']"
  using authorization_sent [OF example_stack_laws] by blast

subsection \<open>Virtual hosts\<close>

lemma last_colon_append: "CHR '':'' \<notin> set p \<Longrightarrow> last_colon (h @ CHR '':'' # p) = Some (h, p)"
  by (simp add: last_colon_def takeWhile_append)

lemma split_host_port_plain:
  assumes "set h \<inter> {CHR '':'', CHR ''['', CHR '']''} = {}" and "set p \<inter> {CHR '':'', CHR ''['', CHR '']''} = {}"
  shows "split_host_port (h @ '':'' @ p) = Some (h, p)"
proof -
  have "last_colon (h @ '':'' @ p) = Some (h, p)" using assms(2) by (simp add: last_colon_append)
  moreover have "\<not> has_prefix (h @ '':'' @ p) ''[''"
    using assms(1) by (cases h) (auto simp: has_prefix_def)
  ultimately show ?thesis using assms by (auto simp: split_host_port_def)
qed

text \<open>
  With virtual-host addressing every bucket host is dialed as the configured host, on the port of the
  request, so no wildcard DNS is needed; the configured host itself and the addresses of a path-style
  client are dialed as they are.
\<close>

theorem rewrite_dial_bucket:
  assumes "set (bucket @ Host cfg @ port) \<inter> {CHR '':'', CHR ''['', CHR '']''} = {}"
  shows "rewrite_dial (NewWithTimeouts cfg t) (bucket @ ''.'' @ Host cfg @ '':'' @ port) =
      (if VirtualHost cfg then Host cfg @ '':'' @ port else bucket @ ''.'' @ Host cfg @ '':'' @ port) \<and>
    rewrite_dial (NewWithTimeouts cfg t) (Host cfg @ '':'' @ port) = Host cfg @ '':'' @ port"
proof -
  let ?h = "Host cfg"
  have "split_host_port ((bucket @ ''.'' @ ?h) @ '':'' @ port) = Some (bucket @ ''.'' @ ?h, port)"
    by (rule split_host_port_plain) (use assms in auto)
  moreover have "has_suffix (bucket @ ''.'' @ ?h) (''.'' @ ?h)" by (auto simp: has_suffix_iff)
  moreover have "split_host_port (?h @ '':'' @ port) = Some (?h, port)"
    by (rule split_host_port_plain) (use assms in auto)
  moreover have "\<not> has_suffix ?h (''.'' @ ?h)" by (simp add: has_suffix_def)
  moreover have "CHR '':'' \<notin> set ?h" using assms by auto
  ultimately show ?thesis by (simp add: rewrite_dial_def join_host_port_def NewWithTimeouts_def)
qed

theorem rewrite_dial_bucket_witness:
  "rewrite_dial (NewFactory example_cfg) ''b.h:80'' = ''h:80''"
proof -
  have "set (''b'' @ Host example_cfg @ ''80'') \<inter> {CHR '':'', CHR ''['', CHR '']''} = {}"
    by (simp add: example_cfg_def Let_def)
  from rewrite_dial_bucket [OF this, of DefaultTimeouts] show ?thesis
    by (simp add: example_cfg_def NewFactory_def Let_def)
qed

text \<open>
  The clients of a factory differ in their credentials only: each signs for us-east-1, never
  retries, computes checksums when supported, goes to the configured endpoint by the configured
  addressing and records the status of its responses; the v2 client signs with the main user's keys
  by the v2 scheme and does not compute checksums.
\<close>

theorem factory_clients:
  "MainClient f = clientOptions f (Some (AccessKey (Main (fCfg f)), SecretKey (Main (fCfg f)))) \<and>
   AltClient f = clientOptions f (Some (AccessKey (Alt (fCfg f)), SecretKey (Alt (fCfg f)))) \<and>
   TenantClient f = clientOptions f (Some (AccessKey (Tenant (fCfg f)), SecretKey (Tenant (fCfg f)))) \<and>
   (\<forall>c \<in> {MainClient f, AltClient f, TenantClient f, BadAuth f k, Anonymous f, V2 f now}.
     oRegion c = ''us-east-1'' \<and> \<not> oRetries c \<and> oBaseEndpoint c = Endpoint (fCfg f) \<and>
     (oUsePathStyle c \<longleftrightarrow> \<not> VirtualHost (fCfg f)) \<and> captureStatusEdit \<in> set (oEdits c)) \<and>
   oCredentials (V2 f now) = oCredentials (MainClient f) \<and> oRequestChecksum (V2 f now) = WhenRequired"
  by (simp add: MainClient_def AltClient_def TenantClient_def BadAuth_def Anonymous_def V2_def forUser_def
      clientOptions_def signV2Option_def WithoutRequestChecksum_def add_edit_def signingRegion_def Let_def)

end
