(* ===== verification/Cmd.thy ===== *)
theory Cmd
  imports RunEnds Export Client
begin

text \<open>
  The command line (\<open>internal/cmd\<close>, \<open>internal/suite\<close>, \<open>cmd/s3t\<close>): the commands \<open>run\<close>, \<open>list\<close>, \<open>markers\<close>
  and \<open>version\<close> after their flags are parsed, and the exit code. What the commands ask of their
  surroundings is a record: what a path opens to, the regular expressions that compile, the ported
  tests for a configuration, the random draws, the terminal. \<open>Runner.Run\<close> is a function argument of \<open>run\<close>;
  that it is a run of the scheduler is a hypothesis, met by the runs of theory Scheduler.
\<close>

section \<open>Surroundings and errors\<close>

record 'f world =
  woOpen :: "gostring \<Rightarrow> go_reader option"
  woRegexp :: "gostring \<Rightarrow> (gostring \<Rightarrow> bool) option"
  woS3Tests :: "config \<Rightarrow> factory \<Rightarrow> 'f gotest list"
  woHeadersTests :: "config \<Rightarrow> factory \<Rightarrow> 'f gotest list"
  woDraws :: "nat \<Rightarrow> nat"
  woColor :: color_env
  woNumCPU :: int

datatype cmd_error =
    ErrNoConfig
  | ErrConfig config_error
  | ErrRegistry registry_error
  | ErrCompileRun
  | ErrParseMarkers marker_error
  | ErrOpenAllowList
  | ErrParseAllowList select_error
  | ErrSelect select_error
  | ErrNoTests
  | ErrOpenKnown
  | ErrParseKnown expect_error
  | ErrRun run_error
  | ErrExport export_error
  | ErrNotAllPassed nat
  | ErrWriteOut
  | ErrCanceled

section \<open>The registry of a command\<close>

definition suite_Registry :: "'f world \<Rightarrow> config \<Rightarrow> factory \<Rightarrow> (registry_error, 'f registry) res" where
  "suite_Registry w cfg clients = NewRegistry (woS3Tests w cfg clients @ woHeadersTests w cfg clients)"

definition registryWithTimeouts :: "'f world \<Rightarrow> gostring \<Rightarrow> timeouts \<Rightarrow>
    (cmd_error, 'f registry \<times> config \<times> factory) res" where
  "registryWithTimeouts w cfgPath t =
     (if cfgPath = [] then Inl ErrNoConfig
      else (case Load (woDraws w) (woOpen w) cfgPath of
          Inl e \<Rightarrow> Inl (ErrConfig e)
        | Inr cfg \<Rightarrow>
            (let clients = NewWithTimeouts cfg t in
             case suite_Registry w cfg clients of
               Inl e \<Rightarrow> Inl (ErrRegistry e)
             | Inr r \<Rightarrow> Inr (r, cfg, clients))))"

definition zero_config :: config where
  "zero_config = (let u = \<lparr>AccessKey = [], SecretKey = [], DisplayName = [], UserID = [], Email = []\<rparr> in
     \<lparr>Endpoint = [], Host = [], Port = 0, IsSecure = False, SSLVerify = False, VirtualHost = False,
      APIName = [], Main = u, Alt = u, Tenant = u, TenantName = [], BucketPrefixName = [], KMSKeyID = [],
      SecondaryKMSKeyID = []\<rparr>)"

definition listRegistry :: "'f world \<Rightarrow> (registry_error, 'f registry) res" where
  "listRegistry w = suite_Registry w zero_config (NewFactory zero_config)"

section \<open>Selection\<close>

record cli_selection =
  clRun :: gostring
  clMarkers :: gostring
  clAllowList :: gostring

definition readAllowList :: "'f world \<Rightarrow> gostring \<Rightarrow> (cmd_error, gostring list) res" where
  "readAllowList w path = (case woOpen w path of
       None \<Rightarrow> Inl ErrOpenAllowList
     | Some f \<Rightarrow> (case ParseAllowList f of Inl e \<Rightarrow> Inl (ErrParseAllowList e) | Inr ids \<Rightarrow> Inr ids))"

definition readKnownFailures :: "'f world \<Rightarrow> gostring \<Rightarrow> 'f registry \<Rightarrow> (cmd_error, known_failures) res" where
  "readKnownFailures w path r = (case woOpen w path of
       None \<Rightarrow> Inl ErrOpenKnown
     | Some f \<Rightarrow> (case ParseKnownFailures f r of Inl e \<Rightarrow> Inl (ErrParseKnown e) | Inr k \<Rightarrow> Inr k))"

definition compile_run :: "'f world \<Rightarrow> gostring \<Rightarrow> (cmd_error, (gostring \<Rightarrow> bool) option) res" where
  "compile_run w run = (if run = [] then Inr None
     else (case woRegexp w run of None \<Rightarrow> Inl ErrCompileRun | Some re \<Rightarrow> Inr (Some re)))"

definition build_selection :: "'f world \<Rightarrow> cli_selection \<Rightarrow> (cmd_error, selection) res" where
  "build_selection w s = (case compile_run w (clRun s) of Inl e \<Rightarrow> Inl e | Inr re \<Rightarrow>
     (case ParseMarkerExpr (clMarkers s) of Inl e \<Rightarrow> Inl (ErrParseMarkers e) | Inr markers \<Rightarrow>
     (case (if clAllowList s = [] then Inr [] else readAllowList w (clAllowList s)) of Inl e \<Rightarrow> Inl e
      | Inr ids \<Rightarrow> Inr \<lparr>selRun = re, selMarkers = markers, selAllowList = ids\<rparr>)))"

definition sel_resolve :: "'f world \<Rightarrow> cli_selection \<Rightarrow> 'f registry \<Rightarrow> (cmd_error, 'f gotest list) res" where
  "sel_resolve w s r = (case build_selection w s of
       Inl e \<Rightarrow> Inl e
     | Inr sel \<Rightarrow> (case reg_select r sel of Inl e \<Rightarrow> Inl (ErrSelect e) | Inr tests \<Rightarrow> Inr tests))"

section \<open>Listing\<close>

text \<open>Printing line by line: a write that fails ends the command.\<close>

definition print_lines :: "(nat \<Rightarrow> nat option) \<Rightarrow> gostring list \<Rightarrow> gostring \<times> cmd_error option" where
  "print_lines out ls = (case write_all out 0 ls of
       (text, None) \<Rightarrow> (text, None)
     | (text, Some _) \<Rightarrow> (text, Some ErrWriteOut))"

definition list_tests :: "'f world \<Rightarrow> cli_selection \<Rightarrow> (cmd_error, 'f gotest list) res" where
  "list_tests w s = (case listRegistry w of Inl e \<Rightarrow> Inl (ErrRegistry e) | Inr r \<Rightarrow> sel_resolve w s r)"

definition cmdList :: "'f world \<Rightarrow> (nat \<Rightarrow> nat option) \<Rightarrow> cli_selection \<Rightarrow> bool \<Rightarrow> gostring \<times> cmd_error option" where
  "cmdList w out s nodeIDs = (case list_tests w s of
       Inl e \<Rightarrow> ([], Some e)
     | Inr tests \<Rightarrow> print_lines out (map (\<lambda>t. (if nodeIDs then NodeID t else tName t) @ nl) tests))"

definition marker_line :: "marker_count \<Rightarrow> gostring" where
  "marker_line m = pad_right 40 (mcName m) @ '' '' @ nat_dec (mcCount m) @ nl"

definition cmdMarkers :: "'f world \<Rightarrow> (nat \<Rightarrow> nat option) \<Rightarrow> cli_selection \<Rightarrow> gostring \<times> cmd_error option" where
  "cmdMarkers w out s = (case list_tests w s of
       Inl e \<Rightarrow> ([], Some e)
     | Inr tests \<Rightarrow> (case NewRegistry tests of
           Inl e \<Rightarrow> ([], Some (ErrRegistry e))
         | Inr sub \<Rightarrow> print_lines out (map marker_line (reg_markers sub))))"

section \<open>Running\<close>

record run_flags =
  rfParallel :: int
  rfSerial :: bool
  rfTimeout :: int
  rfCleanupTimeout :: int
  rfStallTimeout :: int
  rfMaxLeaked :: int
  rfVerbose :: bool
  rfColor :: gostring
  rfJson :: gostring
  rfJunit :: gostring
  rfKnown :: gostring
  rfTimeouts :: timeouts

definition defaultParallel :: "int \<Rightarrow> int" where
  "defaultParallel cpus = min 8 cpus"

definition default_flags :: "int \<Rightarrow> run_flags" where
  "default_flags cpus = \<lparr>rfParallel = defaultParallel cpus, rfSerial = False, rfTimeout = 5 * 60 * 1000000000,
     rfCleanupTimeout = 60 * 1000000000, rfStallTimeout = 0, rfMaxLeaked = 8, rfVerbose = False,
     rfColor = ''auto'', rfJson = [], rfJunit = [], rfKnown = [], rfTimeouts = DefaultTimeouts\<rparr>"

text \<open>What a run works with once everything that can refuse it has passed.\<close>

record 'f plan =
  plTests :: "'f gotest list"
  plEndpoint :: gostring
  plWorkers :: int
  plKnown :: "known_failures option"
  plReporter :: reporter
  plRunner :: runner

definition run_known :: "'f world \<Rightarrow> run_flags \<Rightarrow> 'f registry \<Rightarrow> (cmd_error, known_failures option) res" where
  "run_known w fl r = (if rfKnown fl = [] then Inr None
     else (case readKnownFailures w (rfKnown fl) r of Inl e \<Rightarrow> Inl e | Inr k \<Rightarrow> Inr (Some k)))"

definition make_plan :: "'f world \<Rightarrow> run_flags \<Rightarrow> config \<Rightarrow> 'f gotest list \<Rightarrow> known_failures option \<Rightarrow> 'f plan" where
  "make_plan w fl cfg tests known =
     (let workers = (if rfSerial fl then 1 else rfParallel fl);
          stall = (if rfStallTimeout fl \<le> 0 then 3 * rfTimeout fl else rfStallTimeout fl) in
      \<lparr>plTests = tests, plEndpoint = Endpoint cfg, plWorkers = workers, plKnown = known,
       plReporter = newReporter (useColor (rfColor fl) (woColor w)) (rfVerbose fl) tests,
       plRunner = \<lparr>rParallel = workers, rTimeout = rfTimeout fl, rCleanupTimeout = rfCleanupTimeout fl,
         rStallTimeout = stall, rMaxLeaked = rfMaxLeaked fl, rWatchdogGrace = 0\<rparr>\<rparr>)"

definition cmd_prepare :: "'f world \<Rightarrow> cli_selection \<Rightarrow> run_flags \<Rightarrow> gostring \<Rightarrow> (cmd_error, 'f plan) res" where
  "cmd_prepare w s fl cfgPath = (case registryWithTimeouts w cfgPath (rfTimeouts fl) of Inl e \<Rightarrow> Inl e
     | Inr (r, cfg, clients) \<Rightarrow> (case sel_resolve w s r of Inl e \<Rightarrow> Inl e
     | Inr tests \<Rightarrow>
        if tests = [] then Inl ErrNoTests
        else (case run_known w fl r of Inl e \<Rightarrow> Inl e
     | Inr known \<Rightarrow> Inr (make_plan w fl cfg tests known))))"

text \<open>The files of the two reports.\<close>

record run_io =
  rioJson :: report_io
  rioJunit :: report_io

record cmd_result =
  crText :: gostring
  crJson :: "gostring option"
  crJunit :: "gostring option"
  crError :: "cmd_error option"

definition progress_text :: "'f plan \<Rightarrow> 'f run_result list \<Rightarrow> gostring" where
  "progress_text pl seen =
     report_header (plReporter pl) (plTests pl) (plEndpoint pl) (plWorkers pl) @
     (if plKnown pl = None then [] else report_known (plReporter pl) (plKnown pl)) @
     concat (map (\<lambda>res. report_result (plReporter pl) (kf_classify (plKnown pl) res)) seen)"

definition export_reports :: "run_io \<Rightarrow> run_flags \<Rightarrow> 'f run_result list \<Rightarrow> int \<Rightarrow>
    gostring option \<times> gostring option \<times> export_error option" where
  "export_reports io fl results wall =
     (case (if rfJson fl = [] then (None, None) else writeJSON (rioJson io) results) of
        (json, Some e) \<Rightarrow> (json, None, Some e)
      | (json, None) \<Rightarrow>
         (case (if rfJunit fl = [] then (None, None) else writeJUnit (rioJunit io) results wall) of
            (junit, err) \<Rightarrow> (json, junit, err)))"

definition cmd_finish :: "run_io \<Rightarrow> run_flags \<Rightarrow> 'f plan \<Rightarrow> 'f run_outcome \<Rightarrow> cmd_result" where
  "cmd_finish io fl pl out =
     (let text = progress_text pl (roObserved out);
          results = map (kf_classify (plKnown pl)) (roResults out) in
      case roErr out of
        Some e \<Rightarrow> \<lparr>crText = text, crJson = None, crJunit = None, crError = Some (ErrRun e)\<rparr>
      | None \<Rightarrow>
         (case export_reports io fl results (roWall out) of
            (json, junit, Some e) \<Rightarrow>
              \<lparr>crText = text, crJson = json, crJunit = junit, crError = Some (ErrExport e)\<rparr>
          | (json, junit, None) \<Rightarrow>
             (case summary (plReporter pl) results (roWall out) of (totals, failed) \<Rightarrow>
                \<lparr>crText = text @ totals, crJson = json, crJunit = junit,
                 crError = (if roInterrupted out then Some ErrCanceled else map_option ErrNotAllPassed failed)\<rparr>)))"

definition cmdRun :: "'f world \<Rightarrow> run_io \<Rightarrow> cli_selection \<Rightarrow> run_flags \<Rightarrow> gostring \<Rightarrow>
    (runner \<Rightarrow> 'f gotest list \<Rightarrow> 'f run_outcome) \<Rightarrow> cmd_result" where
  "cmdRun w io s fl cfgPath run = (case cmd_prepare w s fl cfgPath of
       Inl e \<Rightarrow> \<lparr>crText = [], crJson = None, crJunit = None, crError = Some e\<rparr>
     | Inr pl \<Rightarrow> cmd_finish io fl pl (run (plRunner pl) (plTests pl)))"

section \<open>Versions\<close>

record build_info =
  biVersion :: gostring
  biSettings :: "(gostring \<times> gostring) list"

definition buildVersion :: "gostring \<Rightarrow> build_info option \<Rightarrow> gostring" where
  "buildVersion version info =
     (if version \<noteq> [] then version
      else (case info of
          None \<Rightarrow> ''(devel)''
        | Some i \<Rightarrow> if biVersion i = [] then ''(devel)'' else biVersion i))"

definition vcs_step :: "gostring \<times> bool \<Rightarrow> gostring \<times> gostring \<Rightarrow> gostring \<times> bool" where
  "vcs_step st kv = (case (st, kv) of ((revision, modified), (k, v)) \<Rightarrow>
     if k = ''vcs.revision'' then (v, modified)
     else if k = ''vcs.modified'' then (revision, v = ''true'')
     else (revision, modified))"

definition vcsInfo :: "build_info option \<Rightarrow> gostring \<times> bool" where
  "vcsInfo info = (case info of None \<Rightarrow> ([], False) | Some i \<Rightarrow> foldl vcs_step ([], False) (biSettings i))"

definition cmdVersion :: "(nat \<Rightarrow> nat option) \<Rightarrow> gostring \<Rightarrow> build_info option \<Rightarrow> gostring \<Rightarrow> gostring \<Rightarrow> gostring \<Rightarrow>
    gostring \<times> cmd_error option" where
  "cmdVersion out version info goos goarch gover =
     (let (rev, modified) = vcsInfo info in
      print_lines out
        ((''s3t '' @ buildVersion version info @ '' '' @ goos @ ''/'' @ goarch @ '' '' @ gover @ nl) #
         (if rev \<noteq> [] then [''revision '' @ rev @ (if modified then '' (dirty)'' else []) @ nl] else [])))"

section \<open>The process\<close>

definition exitInterrupted :: nat where
  "exitInterrupted = 130"

definition main_exit :: "cmd_error option \<Rightarrow> nat" where
  "main_exit err = (case err of
       None \<Rightarrow> 0
     | Some e \<Rightarrow> if e = ErrCanceled then exitInterrupted else 1)"

text \<open>The signal handler: the first interrupt cancels the context, the second ends the process.\<close>

record process =
  pcSignals :: nat
  pcCancelled :: bool
  pcExited :: "nat option"

definition interruptContext :: process where
  "interruptContext = \<lparr>pcSignals = 0, pcCancelled = False, pcExited = None\<rparr>"

definition on_signal :: "process \<Rightarrow> process" where
  "on_signal p = (case pcExited p of
       Some _ \<Rightarrow> p
     | None \<Rightarrow>
         if pcSignals p = 0 then p\<lparr>pcSignals := 1, pcCancelled := True\<rparr>
         else p\<lparr>pcSignals := pcSignals p + 1, pcExited := Some exitInterrupted\<rparr>)"

section \<open>The exit code\<close>

lemma main_exit_simps [simp]:
  "main_exit None = 0" "main_exit (Some e) = (if e = ErrCanceled then 130 else 1)"
  by (simp_all add: main_exit_def exitInterrupted_def)

lemma filter_fails_classified:
  "filter ((\<lambda>res. fails_run (resStatus res)) \<circ> kf_classify k) rs = [] \<longleftrightarrow>
     \<not> list_ex (\<lambda>res. fails_run (resStatus (kf_classify k res))) rs"
  by (induction rs) auto

text \<open>The error of the reports, if one of them could not be written.\<close>

definition report_error :: "run_io \<Rightarrow> run_flags \<Rightarrow> 'f plan \<Rightarrow> 'f run_outcome \<Rightarrow> export_error option" where
  "report_error io fl pl out =
     snd (snd (export_reports io fl (map (kf_classify (plKnown pl)) (roResults out)) (roWall out)))"

lemma cmd_finish_exit:
  "main_exit (crError (cmd_finish io fl pl out)) =
    (if roErr out \<noteq> None \<or> report_error io fl pl out \<noteq> None then 1
     else if roInterrupted out then 130
     else if list_ex (\<lambda>res. fails_run (resStatus (kf_classify (plKnown pl) res))) (roResults out) then 1
     else 0)"
proof (cases "roErr out")
  case None
  let ?rs = "map (kf_classify (plKnown pl)) (roResults out)"
  obtain j u e where x: "export_reports io fl ?rs (roWall out) = (j, u, e)"
    by (cases "export_reports io fl ?rs (roWall out)")
  obtain t n where s: "summary (plReporter pl) ?rs (roWall out) = (t, n)"
    by (cases "summary (plReporter pl) ?rs (roWall out)")
  have "n = None \<longleftrightarrow> \<not> list_ex (\<lambda>res. fails_run (resStatus (kf_classify (plKnown pl) res))) (roResults out)"
    using snd_summary [of "plReporter pl" ?rs "roWall out"] s filter_fails_classified [of "plKnown pl" "roResults out"]
    by (simp add: Let_def split: if_splits)
  then show ?thesis
    using None x s by (cases e; cases n) (simp_all add: cmd_finish_def report_error_def Let_def)
qed (simp add: cmd_finish_def Let_def)

text \<open>
  The exit code of \<open>s3t run\<close>, once it gets to run: 1 when the run broke down or a report could not be
  written, else 130 when it was interrupted, else 1 exactly when some test fails the run, else 0.
\<close>

theorem cmdRun_exit_code:
  assumes "cmd_prepare w s fl cfgPath = Inr pl" and "run (plRunner pl) (plTests pl) = out"
  shows "main_exit (crError (cmdRun w io s fl cfgPath run)) =
    (if roErr out \<noteq> None \<or> report_error io fl pl out \<noteq> None then 1
     else if roInterrupted out then 130
     else if list_ex (\<lambda>res. fails_run (resStatus (kf_classify (plKnown pl) res))) (roResults out) then 1
     else 0)"
  using assms cmd_finish_exit [of io fl pl out] by (simp add: cmdRun_def)

section \<open>What exit code 0 means\<close>

text \<open>What is demanded of a result, given whether its test is listed as a known failure.\<close>

definition as_expected :: "known_failures option \<Rightarrow> 'f run_result \<Rightarrow> bool" where
  "as_expected k res \<longleftrightarrow> (if kf_expected k (tName (resTest res))
     then resStatus res \<in> {StatusFailed, StatusTimeout, StatusSkipped}
     else resStatus res \<in> {StatusPassed, StatusSkipped})"

lemma as_expected_iff:
  "raw_status (resStatus res) \<Longrightarrow> as_expected k res \<longleftrightarrow> \<not> fails_run (resStatus (kf_classify k res))"
  by (auto simp: as_expected_def kf_classify_def fails_run_def raw_status_def split: status.splits)

lemma outcome_of_raw:
  "outcome_of r b tests i res \<Longrightarrow> raw_status (resStatus res) \<and> resTest res = tests ! i"
  unfolding outcome_of_def yields_def using runOne_raw by blast

lemma prepared_tests: "cmd_prepare w s fl cfgPath = Inr pl \<Longrightarrow> plTests pl \<noteq> []"
  by (auto simp: cmd_prepare_def make_plan_def Let_def split: sum.splits prod.splits if_splits)

lemma exit_zero_outcomes:
  assumes "cmd_prepare w s fl cfgPath = Inr pl"
    and "runs_to (plRunner pl) (plTests pl) (run (plRunner pl) (plTests pl))"
    and "main_exit (crError (cmdRun w io s fl cfgPath run)) = 0"
  shows "list_all2 (\<lambda>i res. outcome_of (plRunner pl) False (plTests pl) i res \<and> resTest res = plTests pl ! i \<and>
        as_expected (plKnown pl) res)
      [0 ..< length (plTests pl)] (roResults (run (plRunner pl) (plTests pl)))"
proof -
  let ?out = "run (plRunner pl) (plTests pl)"
  have fin: "roErr ?out = None" "\<not> roInterrupted ?out"
      "\<not> list_ex (\<lambda>res. fails_run (resStatus (kf_classify (plKnown pl) res))) (roResults ?out)"
    using assms(1,3) cmd_finish_exit [of io fl pl ?out] by (auto simp: cmdRun_def split: if_splits)
  have all: "list_all2 (outcome_of (plRunner pl) False (plTests pl)) [0 ..< length (plTests pl)] (roResults ?out)"
    by (rule runs_to_complete [OF assms(2) fin(1,2)])
  show ?thesis
    using all
  proof (rule list.rel_mono_strong)
    fix i res
    assume "res \<in> set (roResults ?out)" and o: "outcome_of (plRunner pl) False (plTests pl) i res"
    then have "\<not> fails_run (resStatus (kf_classify (plKnown pl) res))" using fin(3) by (simp add: list_ex_iff)
    with outcome_of_raw [OF o] as_expected_iff o
    show "outcome_of (plRunner pl) False (plTests pl) i res \<and> resTest res = plTests pl ! i \<and> as_expected (plKnown pl) res"
      by blast
  qed
qed

text \<open>
  C3. \<open>s3t run\<close> exits with 0 only when at least one test was selected and every selected test has been run,
  each to an outcome of its own: a listed test failed, timed out or was skipped, and an unlisted one
  passed or was skipped.
\<close>

theorem exit_zero_means:
  assumes "cmd_prepare w s fl cfgPath = Inr pl"
    and "runs_to (plRunner pl) (plTests pl) (run (plRunner pl) (plTests pl))"
    and "main_exit (crError (cmdRun w io s fl cfgPath run)) = 0"
  shows "plTests pl \<noteq> [] \<and>
    list_all2 (\<lambda>i res. outcome_of (plRunner pl) False (plTests pl) i res \<and> resTest res = plTests pl ! i \<and>
        as_expected (plKnown pl) res)
      [0 ..< length (plTests pl)] (roResults (run (plRunner pl) (plTests pl)))"
  using exit_zero_outcomes [OF assms] prepared_tests [OF assms(1)] by simp

section \<open>Listing previews a run\<close>

text \<open>What is known of a test before its configuration is: all but its body.\<close>

definition entry_of :: "'f gotest \<Rightarrow> unit gotest" where
  "entry_of t = \<lparr>tName = tName t, tModule = tModule t, tMarkers = tMarkers t, tFn = map_option (\<lambda>_. ()) (tFn t)\<rparr>"

lemma entry_of_sel [simp]:
  "tName (entry_of t) = tName t" "tModule (entry_of t) = tModule t" "tMarkers (entry_of t) = tMarkers t"
  "tFn (entry_of t) = None \<longleftrightarrow> tFn t = None" "NodeID (entry_of t) = NodeID t"
  by (simp_all add: entry_of_def NodeID_def)

definition reg_entries :: "'f registry \<Rightarrow> unit registry" where
  "reg_entries r = \<lparr>byName = map (\<lambda>(n, t). (n, entry_of t)) (byName r)\<rparr>"

lemma reg_lookup_entries: "reg_lookup (reg_entries r) n = map_option entry_of (reg_lookup r n)"
  by (simp add: reg_lookup_def reg_entries_def map_of_map)

lemma add_tests_entries:
  "add_tests (reg_entries r) (map entry_of ts) = map_sum id reg_entries (add_tests r ts)"
proof (induction r ts rule: add_tests.induct)
  case (2 r t ts)
  have "(reg_entries r)\<lparr>byName := byName (reg_entries r) @ [(tName t, entry_of t)]\<rparr> =
      reg_entries (r\<lparr>byName := byName r @ [(tName t, t)]\<rparr>)"
    by (simp add: reg_entries_def)
  then show ?case using 2 by (auto simp: reg_lookup_entries)
qed simp

lemma NewRegistry_entries: "NewRegistry (map entry_of ts) = map_sum id reg_entries (NewRegistry ts)"
  using add_tests_entries [of "\<lparr>byName = []\<rparr>" ts] by (simp add: NewRegistry_def reg_entries_def)

lemma resolve_entries: "resolve (reg_entries r) ids = map_sum id (map entry_of) (resolve r ids)"
  by (induction ids) (auto simp: reg_lookup_entries split: prod.splits option.splits sum.splits)

lemma sort_key_map: "sort_key f (map g xs) = map g (sort_key (f \<circ> g) xs)"
proof -
  have "insort_key f (g x) (map g ys) = map g (insort_key (f \<circ> g) x ys)" for x ys
    by (induction ys) auto
  then show ?thesis by (induction xs) auto
qed

lemma reg_all_entries: "reg_all (reg_entries r) = map entry_of (reg_all r)"
proof -
  have "map snd (byName (reg_entries r)) = map entry_of (map snd (byName r))"
    by (auto simp: reg_entries_def)
  moreover have "tName \<circ> entry_of = (tName :: 'a gotest \<Rightarrow> gostring)" by (simp add: fun_eq_iff)
  ultimately show ?thesis using sort_key_map [of tName entry_of "map snd (byName r)"] by (simp add: reg_all_def)
qed

lemma reg_select_entries: "reg_select (reg_entries r) sel = map_sum id (map entry_of) (reg_select r sel)"
proof -
  have "selected sel (entry_of t) = selected sel t" for t :: "'a gotest"
    by (simp add: selected_def split: option.split)
  then have "filter (selected sel) (map entry_of ts) = map entry_of (filter (selected sel) ts)" for ts :: "'a gotest list"
    by (induction ts) simp_all
  then show ?thesis
    by (cases "resolve r (selAllowList sel)") (auto simp: reg_select_def resolve_entries reg_all_entries)
qed

text \<open>Two registries with the same entries select tests with the same entries.\<close>

lemma sel_resolve_entries:
  assumes "reg_entries r = reg_entries r'" and "sel_resolve w s r = Inr ts"
  shows "\<exists>ts'. sel_resolve w s r' = Inr ts' \<and> map entry_of ts' = map entry_of ts"
proof -
  obtain sel where sel: "build_selection w s = Inr sel" "reg_select r sel = Inr ts"
    using assms(2) by (auto simp: sel_resolve_def split: sum.splits)
  have "map_sum id (map entry_of) (reg_select r' sel) = map_sum id (map entry_of) (reg_select r sel)"
    using reg_select_entries [of r sel] reg_select_entries [of r' sel] assms(1) by simp
  then obtain ts' where "reg_select r' sel = Inr ts'" "map entry_of ts' = map entry_of ts"
    using sel(2) by (cases "reg_select r' sel") auto
  then show ?thesis using sel(1) by (auto simp: sel_resolve_def)
qed

lemma print_lines_ok: "print_lines (\<lambda>_. None) ls = (concat ls, None)"
proof -
  have "write_all (\<lambda>_. None) i ls = (concat ls, None)" for i
    by (induction ls arbitrary: i) auto
  then show ?thesis by (simp add: print_lines_def)
qed

text \<open>
  C36. \<open>s3t list\<close> previews \<open>s3t run\<close>: without a configuration it prints, one per line and in order, the
  names of exactly the tests a run under the same selection flags would run, provided the names and
  markers of the ported tests do not depend on the configuration.
\<close>

theorem list_previews_run:
  assumes cat: "\<And>c f c' f'. map entry_of (woS3Tests w c f @ woHeadersTests w c f) =
      map entry_of (woS3Tests w c' f' @ woHeadersTests w c' f')"
    and prep: "cmd_prepare w s fl cfgPath = Inr pl"
  shows "cmdList w (\<lambda>_. None) s ids =
    (concat (map (\<lambda>t. (if ids then NodeID t else tName t) @ nl) (plTests pl)), None)"
proof -
  obtain r cfg clients where reg: "registryWithTimeouts w cfgPath (rfTimeouts fl) = Inr (r, cfg, clients)"
      and sel: "sel_resolve w s r = Inr (plTests pl)"
    using prep by (auto simp: cmd_prepare_def make_plan_def Let_def split: sum.splits prod.splits if_splits)
  have "suite_Registry w cfg clients = Inr r"
    using reg by (auto simp: registryWithTimeouts_def Let_def split: if_splits sum.splits)
  then have "NewRegistry (map entry_of (woS3Tests w cfg clients @ woHeadersTests w cfg clients)) = Inr (reg_entries r)"
    unfolding NewRegistry_entries by (simp add: suite_Registry_def)
  then have "map_sum id reg_entries (listRegistry w) = Inr (reg_entries r)"
    unfolding cat [of cfg clients zero_config "NewFactory zero_config"] NewRegistry_entries
    by (simp add: listRegistry_def suite_Registry_def)
  then obtain r' where r': "listRegistry w = Inr r'" "reg_entries r = reg_entries r'"
    by (cases "listRegistry w") auto
  from sel_resolve_entries [OF r'(2) sel] obtain ts' where ts': "sel_resolve w s r' = Inr ts'"
      "map entry_of ts' = map entry_of (plTests pl)" by blast
  define line where "line = (\<lambda>t :: unit gotest. (if ids then NodeID t else tName t) @ nl)"
  have "map (\<lambda>t. (if ids then NodeID t else tName t) @ nl) ts' = map line (map entry_of ts')"
    by (simp add: line_def)
  also have "\<dots> = map (\<lambda>t. (if ids then NodeID t else tName t) @ nl) (plTests pl)"
    unfolding ts'(2) by (simp add: line_def)
  finally show ?thesis
    using r' ts' by (simp add: cmdList_def list_tests_def print_lines_ok)
qed

section \<open>A run of one test\<close>

text \<open>The test may have any body that can return after a nanosecond.\<close>

definition sample_case :: "body \<Rightarrow> body gotest" where
  "sample_case f = example_case\<lparr>tFn := Some f\<rparr>"

definition any_body :: body where
  "any_body = (\<lambda>_ _ _. True)"

definition sample_world :: "body \<Rightarrow> body world" where
  "sample_world f = \<lparr>woOpen = (\<lambda>_. Some sample_conf), woRegexp = (\<lambda>_. None), woS3Tests = (\<lambda>_ _. [sample_case f]),
     woHeadersTests = (\<lambda>_ _. []), woDraws = (\<lambda>_. 0),
     woColor = \<lparr>ceNoColor = [], ceTerm = [], ceCharDevice = None\<rparr>, woNumCPU = 4\<rparr>"

definition sample_selection :: cli_selection where
  "sample_selection = \<lparr>clRun = [], clMarkers = [], clAllowList = []\<rparr>"

definition sample_flags :: run_flags where
  "sample_flags = (default_flags 4)\<lparr>rfTimeout := 100, rfCleanupTimeout := 50\<rparr>"

definition sample_runner :: runner where
  "sample_runner = \<lparr>rParallel = 4, rTimeout = 100, rCleanupTimeout = 50, rStallTimeout = 300,
     rMaxLeaked = 8, rWatchdogGrace = 0\<rparr>"

definition sample_io :: run_io where
  "sample_io = \<lparr>rioJson = \<lparr>ioCreate = True, ioWrite = (\<lambda>_. None), ioClose = True\<rparr>,
     rioJunit = \<lparr>ioCreate = True, ioWrite = (\<lambda>_. None), ioClose = True\<rparr>\<rparr>"

definition sample_result :: "body gotest \<Rightarrow> body run_result" where
  "sample_result t = \<lparr>resTest = t, resStatus = StatusPassed, resDuration = 1, resOutput = [], resSkip = []\<rparr>"

definition sample_outcome :: "body gotest \<Rightarrow> body run_outcome" where
  "sample_outcome t = \<lparr>roResults = [sample_result t], roErr = None, roObserved = [sample_result t], roInterrupted = False,
     roWall = 1\<rparr>"

lemma sample_plan:
  assumes "woOpen w = (\<lambda>_. Some sample_conf)" and "woDraws w = (\<lambda>_. 0)"
    and "\<And>c f. suite_Registry w c f = Inr (r c f)"
    and "\<And>c f. sel_resolve w s (r c f) = Inr (ts c f)" and "\<And>c f. ts c f \<noteq> []"
  shows "\<exists>pl c f. cmd_prepare w s sample_flags ''c'' = Inr pl \<and> plRunner pl = sample_runner \<and>
    plTests pl = ts c f \<and> plKnown pl = None"
proof -
  obtain raw where raw: "parseINI sample_conf = Inr raw" "usable raw" using sample_usable by blast
  obtain cfg where "build (\<lambda>_. 0) raw = Inr cfg" using raw(2) build_total by blast
  then have "Load (\<lambda>_. 0) (\<lambda>_. Some sample_conf) ''c'' = Inr cfg"
    using raw(1) by (simp add: Load_def load_config_def)
  then show ?thesis
    using assms
    by (simp add: cmd_prepare_def registryWithTimeouts_def run_known_def make_plan_def
        sample_flags_def default_flags_def defaultParallel_def sample_runner_def Let_def) blast
qed

lemma sample_prepare:
  "\<exists>pl. cmd_prepare (sample_world f) sample_selection sample_flags ''c'' = Inr pl \<and> plRunner pl = sample_runner \<and>
    plTests pl = [sample_case f] \<and> plKnown pl = None"
proof -
  let ?r = "\<lparr>byName = [(''t'', sample_case f)]\<rparr>"
  have "suite_Registry (sample_world f) c g = Inr ?r" for c g
    by (simp add: suite_Registry_def sample_world_def NewRegistry_def sample_case_def example_case_def reg_lookup_def)
  moreover have "sel_resolve (sample_world f) sample_selection ?r = Inr [sample_case f]"
    by (simp add: sel_resolve_def build_selection_def compile_run_def sample_selection_def ParseMarkerExpr_def
        reg_select_def reg_all_def selected_def marker_match_def)
  ultimately show ?thesis
    using sample_plan [of "sample_world f" "\<lambda>_ _. ?r" sample_selection "\<lambda>_ _. [sample_case f]"]
    by (simp add: sample_world_def)
qed

text \<open>The body of a test can return after a nanosecond, having registered the given cleanups.\<close>

definition body_returns :: "nat list \<Rightarrow> body gotest \<Rightarrow> bool" where
  "body_returns cs t \<longleftrightarrow>
     (\<exists>f. tFn t = Some f \<and> f 0 (example_body (map (\<lambda>c. (1, OpCleanup c)) cs) 1 (Returned ())) (example_cleanup 0))"

lemma example_env_cancel: "evCancel example_env = None"
  by (simp add: example_env_def)

lemma sample_yields:
  assumes "body_returns cs t" and "length cs \<le> 1"
  shows "yields sample_runner None t 0 (sample_result t) 1"
proof -
  obtain f where f: "tFn t = Some f"
      "f 0 (example_body (map (\<lambda>c. (1, OpCleanup c)) cs) 1 (Returned ())) (example_cleanup 0)"
    using assms(1) by (auto simp: body_returns_def)
  consider "cs = []" | c where "cs = [c]" using assms(2) by (cases cs) auto
  then have "runOne sample_runner example_env t 0 (example_body (map (\<lambda>c. (1, OpCleanup c)) cs) 1 (Returned ()))
      (example_cleanup 0) = Some (sample_result t, 1)"
    by cases (simp_all add: run_example_defs run_code_defs sample_runner_def sample_result_def defaultWatchdogGrace_def)
  then show ?thesis using f example_env_cancel unfolding yields_def by blast
qed

lemma sample_runs:
  assumes "body_returns cs t" and "length cs \<le> 1" and "\<not> test_marker t MarkerSerial"
  shows "runs_to sample_runner [t] (sample_outcome t)"
proof -
  let ?ts = "[t]"
  let ?s0 = "run_start sample_runner ?ts 0"
  let ?s1 = "enter_phase ParallelPhase (snd (run_partition ?ts)) (rParallel sample_runner) ?s0"
  let ?s2 = "?s1\<lparr>sTodo := [], sRunning := sRunning ?s1 @ [(0, sNow ?s1)]\<rparr>"
  let ?s3 = "?s2\<lparr>sNow := sNow ?s2 + 1\<rparr>"
  let ?s4 = "finish_enter sample_runner 0 (sample_result t) ?s3"
  let ?s5 = "finish_record 0 (sample_result t) ?s4"
  have part: "run_partition ?ts = ([], [0])"
    using assms(3) by (simp add: run_partition_def)
  note start [simp] = run_start_def watch_interval_def part sample_runner_def in_flight_def phase_over_def phase_workers_def
  have e0: "sstep sample_runner ?ts ?s0 EvPhase ?s1" by (rule serial_done) simp_all
  have e1: "sstep sample_runner ?ts ?s1 EvFeed ?s2" by (rule feed) simp_all
  have e2: "sstep sample_runner ?ts ?s2 EvTick ?s3" by (rule tick) simp
  have e3: "sstep sample_runner ?ts ?s3 (EvComplete 0) ?s4"
    by (rule complete [where start = 0 and now = 1])
      (use sample_yields [OF assms(1,2)] in \<open>simp_all del: sample_runner_def\<close>)
  have e4: "sstep sample_runner ?ts ?s4 (EvRecord 0) ?s5" by (rule record_result) simp
  have e5: "sstep sample_runner ?ts ?s5 EvPhase (run_return ?s5)" by (rule parallel_done) simp_all
  have "ssteps sample_runner ?ts ?s0 [EvPhase, EvFeed, EvTick, EvComplete 0, EvRecord 0] ?s5"
    by (rule ssteps_step [OF e0 ssteps_step [OF e1 ssteps_step [OF e2 ssteps_step [OF e3 ssteps_step [OF e4
      ssteps_refl]]]]])
  moreover have "sOut ?s5 = None" by (simp add: finish_record_def)
  moreover have "sOut (run_return ?s5) = Some (roResults (sample_outcome t), roErr (sample_outcome t))"
    by (simp add: run_return_def collect_def finish_enter_def sample_result_def finish_record_def
        enter_phase_def sample_outcome_def)
  moreover have "roObserved (sample_outcome t) = observed (run_return ?s5)"
    by (simp add: run_return_def finish_enter_def sample_result_def finish_record_def observed_def
        enter_phase_def sample_outcome_def)
  ultimately show ?thesis
    unfolding runs_to_def using e5 by (intro exI [of _ 0] exI conjI) (assumption | simp)+
qed

lemma sample_exit:
  assumes "cmd_prepare w s sample_flags p = Inr pl" and "plKnown pl = None"
  shows "main_exit (crError (cmdRun w sample_io s sample_flags p (\<lambda>_ _. sample_outcome t))) = 0"
  using assms
  by (simp add: cmdRun_def cmd_finish_exit sample_outcome_def report_error_def export_reports_def sample_flags_def
      default_flags_def sample_result_def fails_run_def)

lemma sample_case_returns: "f 0 (example_body [] 1 (Returned ())) (example_cleanup 0) \<Longrightarrow> body_returns [] (sample_case f)"
  by (simp add: body_returns_def sample_case_def)

lemma sample_case_parallel: "\<not> test_marker (sample_case f) m"
  by (simp add: sample_case_def example_case_def test_marker_def)

lemma sample_any: "body_returns [] (sample_case any_body)"
  by (rule sample_case_returns) (simp add: any_body_def)

theorem cmdRun_exit_code_witness:
  "main_exit (crError (cmdRun (sample_world any_body) sample_io sample_selection sample_flags ''c''
     (\<lambda>_ _. (sample_outcome (sample_case any_body))\<lparr>roInterrupted := True\<rparr>))) = 130"
proof -
  obtain pl where pl: "cmd_prepare (sample_world any_body) sample_selection sample_flags ''c'' = Inr pl" "plKnown pl = None"
    using sample_prepare by blast
  show ?thesis
    using cmdRun_exit_code [OF pl(1) refl, of sample_io "\<lambda>_ _. (sample_outcome (sample_case any_body))\<lparr>roInterrupted := True\<rparr>"] pl(2)
    by (simp add: sample_outcome_def report_error_def export_reports_def sample_flags_def default_flags_def)
qed

theorem exit_zero_means_witness:
  "list_all2 (\<lambda>i res. outcome_of sample_runner False [sample_case any_body] i res \<and> resTest res = [sample_case any_body] ! i \<and>
     as_expected None res) [0] [sample_result (sample_case any_body)]"
proof -
  obtain pl where pl: "cmd_prepare (sample_world any_body) sample_selection sample_flags ''c'' = Inr pl"
      "plRunner pl = sample_runner" "plTests pl = [sample_case any_body]" "plKnown pl = None"
    using sample_prepare by blast
  have "runs_to (plRunner pl) (plTests pl) (sample_outcome (sample_case any_body))" using sample_runs [OF sample_any _ sample_case_parallel] pl by simp
  from exit_zero_means [OF pl(1) this sample_exit [OF pl(1,4)]] pl show ?thesis
    by (simp add: sample_outcome_def)
qed

theorem list_previews_run_witness:
  "cmdList (sample_world any_body) (\<lambda>_. None) sample_selection False = (''t'' @ nl, None)"
proof -
  obtain pl where pl: "cmd_prepare (sample_world any_body) sample_selection sample_flags ''c'' = Inr pl"
      "plTests pl = [sample_case any_body]"
    using sample_prepare by blast
  have "map entry_of (woS3Tests (sample_world any_body) c f @ woHeadersTests (sample_world any_body) c f) =
      map entry_of (woS3Tests (sample_world any_body) c' f' @ woHeadersTests (sample_world any_body) c' f')" for c f c' f'
    by (simp add: sample_world_def)
  from list_previews_run [OF this pl(1), of False] pl(2) show ?thesis by (simp add: sample_case_def example_case_def)
qed

end
