(* ===== verification/Cli.thy ===== *)
theory Cli
  imports Cmd
begin

text \<open>
  The command line as it is declared (\<open>Root\<close>, \<open>bind\<close> and the flags of the commands in \<open>internal/cmd\<close>), and
  the process from its parsed arguments on (\<open>cmd/s3t/main.go\<close>). The parser is the one of cobra and
  pflag: given is what it hands over, the subcommand and the values of the flags that were set, each
  of the type its declaration asks for.
\<close>

section \<open>Declarations\<close>

datatype flag_value = FInt int | FBool bool | FDuration int | FString gostring

record flag =
  fgName :: gostring
  fgShort :: gostring
  fgDefault :: flag_value
  fgUsage :: gostring

definition new_flag :: "gostring \<Rightarrow> gostring \<Rightarrow> flag_value \<Rightarrow> gostring \<Rightarrow> flag" where
  "new_flag name short v usage = \<lparr>fgName = name, fgShort = short, fgDefault = v, fgUsage = usage\<rparr>"

record command =
  cmUse :: gostring
  cmShort :: gostring
  cmFlags :: "flag list"

definition sel_bind :: "flag list" where
  "sel_bind =
     [new_flag ''run'' ''k'' (FString []) ''run only tests whose name matches this regular expression'',
      new_flag ''markers'' ''m'' (FString [])
        (''run only tests matching a marker expression, e.g. '' @ [CHR 0x27] @ ''lifecycle and not fails_on_aws'' @ [CHR 0x27]),
      new_flag ''allow-list'' [] (FString [])
        (''file of pytest node IDs to run, one per line; '' @ [CHR 0x27] @ ''#'' @ [CHR 0x27] @ '' comments are ignored'')]"

definition run_flag_set :: "int \<Rightarrow> flag list" where
  "run_flag_set cpus =
     [new_flag ''parallel'' ''p'' (FInt (defaultParallel cpus)) ''number of tests to run at once'',
      new_flag ''serial'' [] (FBool False) ''run one test at a time, for debugging'',
      new_flag ''timeout'' [] (FDuration (5 * 60 * 1000000000)) ''per-test timeout'',
      new_flag ''cleanup-timeout'' [] (FDuration (60 * 1000000000)) ''per-test cleanup timeout'',
      new_flag ''stall-timeout'' [] (FDuration 0)
        ''abort if no test finishes in this long (default: three times --timeout)'',
      new_flag ''max-leaked'' [] (FInt 8) ''abort after this many tests are abandoned'',
      new_flag ''verbose'' ''v'' (FBool False) ''show output from passing tests too'',
      new_flag ''color'' [] (FString ''auto'') ''colorize output: auto, always or never'',
      new_flag ''json'' [] (FString []) ''write a line-delimited JSON report to this file'',
      new_flag ''junit'' [] (FString []) ''write a JUnit XML report to this file'',
      new_flag ''known-failures'' [] (FString [])
        ''file of pytest node IDs expected to fail; listed tests must fail and unlisted ones must pass'',
      new_flag ''request-timeout'' [] (FDuration (toRequest DefaultTimeouts)) ''per-HTTP-request timeout'',
      new_flag ''response-header-timeout'' [] (FDuration (toResponseHeader DefaultTimeouts))
        ''how long to wait for a server to start answering a request'',
      new_flag ''dial-timeout'' [] (FDuration (toDial DefaultTimeouts)) ''TCP connect timeout'']"

definition list_flag_set :: "flag list" where
  "list_flag_set = [new_flag ''node-ids'' [] (FBool False)
     ''print pytest node IDs instead of names, the form allow-list files use'']"

record root_command =
  roUse :: gostring
  roPersistent :: "flag list"
  roCommands :: "command list"

definition Root :: "gostring \<Rightarrow> int \<Rightarrow> root_command" where
  "Root conf cpus = \<lparr>roUse = ''s3t'',
     roPersistent = new_flag ''config'' ''c'' (FString conf) ''path to s3tests.conf (defaults to $S3TEST_CONF)'' # sel_bind,
     roCommands =
       [\<lparr>cmUse = ''run'', cmShort = ''Run the selected tests'', cmFlags = run_flag_set cpus\<rparr>,
        \<lparr>cmUse = ''list'', cmShort = ''Print the names of the selected tests'', cmFlags = list_flag_set\<rparr>,
        \<lparr>cmUse = ''markers'', cmShort = ''Print the markers carried by the selected tests'', cmFlags = []\<rparr>,
        \<lparr>cmUse = ''version'', cmShort = ''Print version information'', cmFlags = []\<rparr>]\<rparr>"

section \<open>Values\<close>

text \<open>The variables the flags are bound to, when the flags in \<open>given\<close> were set.\<close>

type_synonym given = "gostring \<Rightarrow> flag_value option"

definition flag_var :: "flag list \<Rightarrow> given \<Rightarrow> gostring \<Rightarrow> flag_value option" where
  "flag_var fs given n = (case given n of
       Some v \<Rightarrow> Some v
     | None \<Rightarrow> map_option fgDefault (find (\<lambda>f. fgName f = n) fs))"

fun as_int :: "flag_value option \<Rightarrow> int" where
  "as_int (Some (FInt n)) = n"
| "as_int (Some (FDuration n)) = n"
| "as_int v = 0"

fun as_bool :: "flag_value option \<Rightarrow> bool" where
  "as_bool (Some (FBool b)) = b"
| "as_bool v = False"

fun as_string :: "flag_value option \<Rightarrow> gostring" where
  "as_string (Some (FString s)) = s"
| "as_string v = []"

definition bound_selection :: "given \<Rightarrow> cli_selection" where
  "bound_selection given = (let var = flag_var sel_bind given in
     \<lparr>clRun = as_string (var ''run''), clMarkers = as_string (var ''markers''), clAllowList = as_string (var ''allow-list'')\<rparr>)"

definition bound_config :: "gostring \<Rightarrow> given \<Rightarrow> gostring" where
  "bound_config conf given = as_string (flag_var (roPersistent (Root conf 0)) given ''config'')"

definition bound_run_flags :: "int \<Rightarrow> given \<Rightarrow> run_flags" where
  "bound_run_flags cpus given = (let var = flag_var (run_flag_set cpus) given in
     \<lparr>rfParallel = as_int (var ''parallel''), rfSerial = as_bool (var ''serial''), rfTimeout = as_int (var ''timeout''),
      rfCleanupTimeout = as_int (var ''cleanup-timeout''), rfStallTimeout = as_int (var ''stall-timeout''),
      rfMaxLeaked = as_int (var ''max-leaked''), rfVerbose = as_bool (var ''verbose''),
      rfColor = as_string (var ''color''), rfJson = as_string (var ''json''), rfJunit = as_string (var ''junit''),
      rfKnown = as_string (var ''known-failures''),
      rfTimeouts = DefaultTimeouts\<lparr>toRequest := as_int (var ''request-timeout''),
        toResponseHeader := as_int (var ''response-header-timeout''), toDial := as_int (var ''dial-timeout'')\<rparr>\<rparr>)"

section \<open>The process\<close>

text \<open>What the process finds around it, and what it was called with.\<close>

record 'f surroundings =
  suWorld :: "'f world"
  suIo :: run_io
  suOut :: "nat \<Rightarrow> nat option"
  suConf :: gostring
  suVersion :: gostring
  suBuild :: "build_info option"
  suPlatform :: "gostring \<times> gostring \<times> gostring"
  suRun :: "runner \<Rightarrow> 'f gotest list \<Rightarrow> 'f run_outcome"

datatype subcommand = CmdRun | CmdList | CmdMarkers | CmdVersion

definition execute :: "'f surroundings \<Rightarrow> subcommand \<Rightarrow> given \<Rightarrow> gostring \<times> cmd_error option" where
  "execute su sub given = (case sub of
       CmdRun \<Rightarrow>
         (let r = cmdRun (suWorld su) (suIo su) (bound_selection given)
            (bound_run_flags (woNumCPU (suWorld su)) given) (bound_config (suConf su) given) (suRun su)
          in (crText r, crError r))
     | CmdList \<Rightarrow> cmdList (suWorld su) (suOut su) (bound_selection given)
         (as_bool (flag_var list_flag_set given ''node-ids''))
     | CmdMarkers \<Rightarrow> cmdMarkers (suWorld su) (suOut su) (bound_selection given)
     | CmdVersion \<Rightarrow> (case suPlatform su of (goos, goarch, gover) \<Rightarrow>
         cmdVersion (suOut su) (suVersion su) (suBuild su) goos goarch gover))"

definition s3t_exit :: "'f surroundings \<Rightarrow> subcommand \<Rightarrow> given \<Rightarrow> nat" where
  "s3t_exit su sub given = main_exit (snd (execute su sub given))"

section \<open>Well-formedness\<close>

text \<open>
  pflag refuses a second flag of the same name or the same shorthand, by a panic when the program
  starts, and a shorthand of more than a letter; cobra adds \<open>help\<close> with shorthand \<open>h\<close> to every command.
\<close>

definition flags_ok :: "flag list \<Rightarrow> bool" where
  "flags_ok fs \<longleftrightarrow> distinct (map fgName fs) \<and> distinct (filter (\<lambda>s. s \<noteq> []) (map fgShort fs)) \<and>
     list_all (\<lambda>f. fgName f \<noteq> [] \<and> length (fgShort f) \<le> 1) fs"

definition help_flag :: flag where
  "help_flag = new_flag ''help'' ''h'' (FBool False) []"

definition same_kind :: "flag_value \<Rightarrow> flag_value \<Rightarrow> bool" where
  "same_kind v w \<longleftrightarrow> (case (v, w) of
       (FInt _, FInt _) \<Rightarrow> True | (FBool _, FBool _) \<Rightarrow> True | (FDuration _, FDuration _) \<Rightarrow> True
     | (FString _, FString _) \<Rightarrow> True | _ \<Rightarrow> False)"

definition typed :: "flag list \<Rightarrow> given \<Rightarrow> bool" where
  "typed fs given \<longleftrightarrow> (\<forall>f \<in> set fs. \<forall>v \<in> set_option (given (fgName f)). same_kind v (fgDefault f))"

lemmas cli_defs = Root_def run_flag_set_def list_flag_set_def sel_bind_def new_flag_def help_flag_def

lemma find_distinct: "distinct (map fgName fs) \<Longrightarrow> f \<in> set fs \<Longrightarrow> find (\<lambda>g. fgName g = fgName f) fs = Some f"
  by (induction fs) (auto simp: rev_image_eqI)

lemma same_kind_refl [simp]: "same_kind v v"
  by (cases v) (simp_all add: same_kind_def)

lemma flag_var_typed:
  assumes "distinct (map fgName fs)" and "typed fs given" and "f \<in> set fs"
  shows "\<exists>v. flag_var fs given (fgName f) = Some v \<and> same_kind v (fgDefault f)"
  using assms find_distinct [OF assms(1,3)] by (auto simp: flag_var_def typed_def split: option.splits)

lemma run_flags_ok: "flags_ok (help_flag # roPersistent (Root conf cpus) @ run_flag_set cpus)"
  by (simp add: flags_ok_def cli_defs)

lemma commands_ok: "\<forall>c \<in> set (roCommands (Root conf cpus)). flags_ok (help_flag # roPersistent (Root conf cpus) @ cmFlags c)"
proof -
  have "flags_ok (help_flag # roPersistent (Root conf cpus) @ list_flag_set)"
      "flags_ok (help_flag # roPersistent (Root conf cpus))"
    by (simp_all add: flags_ok_def cli_defs)
  then show ?thesis using run_flags_ok [of conf cpus] by (simp add: Root_def)
qed

lemma flags_ok_part: "flags_ok (f # fs @ gs) \<Longrightarrow> distinct (map fgName (fs @ gs))"
  by (simp add: flags_ok_def)

lemma default_run_flags: "bound_run_flags cpus (\<lambda>_. None) = default_flags cpus"
  by (simp add: bound_run_flags_def default_flags_def flag_var_def cli_defs DefaultTimeouts_def Let_def)


definition given_parallel :: given where
  "given_parallel = (\<lambda>n. if n = ''parallel'' then Some (FInt 3) else None)"


end
