(* ===== verification/Assertions.thy ===== *)
theory Assertions
  imports TestHandle Client
begin

text \<open>
  The assertions ported tests share (\<open>internal/s3util/assert.go\<close>), as programs on the handle. The text
  \<open>%v\<close> and \<open>%q\<close> give a value is a parameter. A map is the list of its entries in the order the code
  meets them; lowercasing is that of ASCII letters.
\<close>

section \<open>Definitions\<close>

type_synonym call_error = "err_layer list option"

definition NoError :: "(err_layer list \<Rightarrow> gostring) \<Rightarrow> call_error \<Rightarrow> gostring \<Rightarrow> ('c, 'w, unit) prog" where
  "NoError showE err op = (case err of
       None \<Rightarrow> p_return ()
     | Some e \<Rightarrow> t_Fatalf (op @ '': '' @ showE e))"

definition differs :: "('a \<Rightarrow> gostring) \<Rightarrow> 'a \<Rightarrow> 'a \<Rightarrow> gostring \<Rightarrow> gostring" where
  "differs show_value got want what = what @ '' = '' @ show_value got @ '', want '' @ show_value want"

definition Equal :: "('a \<Rightarrow> gostring) \<Rightarrow> 'a \<Rightarrow> 'a \<Rightarrow> gostring \<Rightarrow> ('c, 'w, unit) prog" where
  "Equal show_value got want what =
     (if got \<noteq> want then t_Errorf (differs show_value got want what) else p_return ())"

definition EqualNow :: "('a \<Rightarrow> gostring) \<Rightarrow> 'a \<Rightarrow> 'a \<Rightarrow> gostring \<Rightarrow> ('c, 'w, unit) prog" where
  "EqualNow show_value got want what =
     (if got \<noteq> want then t_Fatalf (differs show_value got want what) else p_return ())"

definition EqualStrings :: "(gostring list \<Rightarrow> gostring) \<Rightarrow> gostring list \<Rightarrow> gostring list \<Rightarrow> gostring \<Rightarrow>
    ('c, 'w, unit) prog" where
  "EqualStrings show_value got want what =
     (if \<not> (length got = length want \<and> list_all2 (=) got want)
      then t_Errorf (differs show_value got want what) else p_return ())"

type_synonym metadata_map = "(gostring \<times> gostring) list"

definition lower_keys :: "metadata_map \<Rightarrow> gostring \<Rightarrow> gostring option" where
  "lower_keys got = foldl (\<lambda>m (k, v). m(to_lower k \<mapsto> v)) Map.empty got"

text \<open>Reading a Go map at an absent key gives the empty string.\<close>

definition go_index :: "(gostring \<Rightarrow> gostring option) \<Rightarrow> gostring \<Rightarrow> gostring" where
  "go_index m k = (case m k of None \<Rightarrow> [] | Some v \<Rightarrow> v)"

fun metadata_differs :: "(gostring \<Rightarrow> gostring option) \<Rightarrow> metadata_map \<Rightarrow> bool" where
  "metadata_differs lower [] = False"
| "metadata_differs lower ((k, v) # want) =
     (if go_index lower (to_lower k) \<noteq> v then True else metadata_differs lower want)"

definition EqualMetadata :: "(metadata_map \<Rightarrow> gostring) \<Rightarrow> metadata_map \<Rightarrow> metadata_map \<Rightarrow> gostring \<Rightarrow>
    ('c, 'w, unit) prog" where
  "EqualMetadata show_value got want what =
     (if length got \<noteq> length want then t_Errorf (differs show_value got want what)
      else if metadata_differs (lower_keys got) want then t_Errorf (differs show_value got want what)
      else p_return ())"

definition show_ints :: "int list \<Rightarrow> gostring" where
  "show_ints xs = ''['' @ str_join (map int_dec xs) '' '' @ '']''"

definition show_error :: "(err_layer list \<Rightarrow> gostring) \<Rightarrow> call_error \<Rightarrow> gostring" where
  "show_error showE err = (case err of None \<Rightarrow> ''<nil>'' | Some e \<Rightarrow> showE e)"

definition ErrorIsOneOf :: "(err_layer list \<Rightarrow> gostring) \<Rightarrow> call_error \<Rightarrow> int list \<Rightarrow> gostring \<Rightarrow>
    ('c, 'w, unit) prog" where
  "ErrorIsOneOf showE err statuses code =
     p_then
      (if err = None then t_Fatalf (''expected error with code '' @ code @ '', got success'') else p_return ())
      (case StatusAndCode err of (gotStatus, gotCode) \<Rightarrow>
        if \<not> List.member statuses gotStatus \<or> gotCode \<noteq> code
        then t_Errorf (''error = status '' @ int_dec gotStatus @ '' code '' @ gotCode @ '', want one of '' @
               show_ints statuses @ '' with code '' @ code @ '' ('' @ show_error showE err @ '')'')
        else p_return ())"

definition ErrorStatus :: "(err_layer list \<Rightarrow> gostring) \<Rightarrow> call_error \<Rightarrow> int \<Rightarrow> ('c, 'w, unit) prog" where
  "ErrorStatus showE err status =
     p_then
      (if err = None then t_Fatalf (''expected error with status '' @ int_dec status @ '', got success'') else p_return ())
      (case StatusAndCode err of (got, _) \<Rightarrow>
        if got \<noteq> status
        then t_Errorf (''error = status '' @ int_dec got @ '', want '' @ int_dec status @ '' ('' @ show_error showE err @ '')'')
        else p_return ())"

definition ErrorIs :: "(err_layer list \<Rightarrow> gostring) \<Rightarrow> call_error \<Rightarrow> int \<Rightarrow> gostring \<Rightarrow> ('c, 'w, unit) prog" where
  "ErrorIs showE err status code =
     p_then
      (if err = None
       then t_Fatalf (''expected error with status '' @ int_dec status @ '' and code '' @ code @ '', got success'')
       else p_return ())
      (case StatusAndCode err of (gotStatus, gotCode) \<Rightarrow>
        if gotStatus \<noteq> status \<or> gotCode \<noteq> code
        then t_Errorf (''error = status '' @ int_dec gotStatus @ '' code '' @ gotCode @ '', want status '' @
               int_dec status @ '' code '' @ code @ '' ('' @ show_error showE err @ '')'')
        else p_return ())"

text \<open>The payload alphabet; the draws of \<open>rand.IntN(62)\<close> are a parameter.\<close>

definition payload_alphabet :: gostring where
  "payload_alphabet = ''abcdefghijklmnopqrstuvwxyzABCDEFGHIJKLMNOPQRSTUVWXYZ0123456789''"

definition RandomString :: "(nat \<Rightarrow> nat) \<Rightarrow> nat \<Rightarrow> gostring" where
  "RandomString draws n = map (\<lambda>i. payload_alphabet ! draws i) [0 ..< n]"

section \<open>The contract of an assertion\<close>

text \<open>
  An assertion decides a condition: it leaves everything as it was when the condition holds; otherwise
  it marks the test failed, and returns or unwinds as \<open>Fatalf\<close> does.
\<close>

locale assertion =
  fixes m :: "('c, 'w, unit) prog" and P :: bool
  assumes holds: "P \<Longrightarrow> m s = (Returned (), s)"
    and fails: "\<not> P \<Longrightarrow> fst (m s) \<in> {Returned (), FailNow} \<and> hFailed (teT (snd (m s)))"
    and quiet: "hCleanups (teT (snd (m s))) = hCleanups (teT s)" "teWorld (snd (m s)) = teWorld s"
begin

lemma exits: "fst (m s) \<in> {Returned (), FailNow}"
  using holds [of s] fails [of s] by (cases P) auto

lemma returns_iff: "\<not> hFailed (teT s) \<Longrightarrow>
    fst (m s) = Returned () \<and> \<not> hFailed (teT (snd (m s))) \<longleftrightarrow> P"
  using holds [of s] fails [of s] by (cases P) auto

lemma passes_iff: "\<not> hFailed (teT s) \<Longrightarrow> \<not> hFailed (teT (snd (m s))) \<longleftrightarrow> P"
  using holds [of s] fails [of s] by (cases P) auto

end

lemmas assertion_defs = p_then_def p_bind_def p_return_def t_Fatalf_def t_Errorf_def h_error_def update_handle_def

interpretation no_error: assertion "NoError showE err op" "err = None" for showE err op
  by unfold_locales (auto simp: NoError_def assertion_defs split: option.splits)

interpretation equal: assertion "Equal sh got want what" "got = want" for sh got want what
  by unfold_locales (auto simp: Equal_def assertion_defs)

interpretation equal_now: assertion "EqualNow sh got want what" "got = want" for sh got want what
  by unfold_locales (auto simp: EqualNow_def assertion_defs)

interpretation equal_strings: assertion "EqualStrings sh got want what" "got = want" for sh got want what
  by unfold_locales (auto simp: EqualStrings_def assertion_defs list.rel_eq)

interpretation equal_metadata: assertion "EqualMetadata sh got want what"
    "length got = length want \<and> \<not> metadata_differs (lower_keys got) want" for sh got want what
  by unfold_locales (auto simp: EqualMetadata_def assertion_defs)

interpretation error_one_of: assertion "ErrorIsOneOf showE err statuses code"
    "err \<noteq> None \<and> fst (StatusAndCode err) \<in> set statuses \<and> snd (StatusAndCode err) = code" for showE err statuses code
  by unfold_locales (auto simp: ErrorIsOneOf_def assertion_defs split: prod.splits)

interpretation error_status: assertion "ErrorStatus showE err status"
    "err \<noteq> None \<and> fst (StatusAndCode err) = status" for showE err status
  by unfold_locales (auto simp: ErrorStatus_def assertion_defs split: prod.splits)

interpretation error_is: assertion "ErrorIs showE err status code"
    "err \<noteq> None \<and> StatusAndCode err = (status, code)" for showE err status code
  by unfold_locales (auto simp: ErrorIs_def assertion_defs split: prod.splits)

section \<open>A body of assertions\<close>

text \<open>A test body that makes assertions one after the other, on values it has already got.\<close>

datatype check =
    CheckNoError call_error gostring
  | CheckEqual int int gostring
  | CheckEqualNow int int gostring
  | CheckStrings "gostring list" "gostring list" gostring
  | CheckMetadata metadata_map metadata_map gostring
  | CheckOneOf call_error "int list" gostring
  | CheckStatus call_error int
  | CheckErrorIs call_error int gostring

record check_text =
  ctError :: "err_layer list \<Rightarrow> gostring"
  ctStrings :: "gostring list \<Rightarrow> gostring"
  ctMap :: "metadata_map \<Rightarrow> gostring"

fun run_check :: "check_text \<Rightarrow> check \<Rightarrow> ('c, 'w, unit) prog" where
  "run_check x (CheckNoError err op) = NoError (ctError x) err op"
| "run_check x (CheckEqual got want what) = Equal int_dec got want what"
| "run_check x (CheckEqualNow got want what) = EqualNow int_dec got want what"
| "run_check x (CheckStrings got want what) = EqualStrings (ctStrings x) got want what"
| "run_check x (CheckMetadata got want what) = EqualMetadata (ctMap x) got want what"
| "run_check x (CheckOneOf err statuses code) = ErrorIsOneOf (ctError x) err statuses code"
| "run_check x (CheckStatus err status) = ErrorStatus (ctError x) err status"
| "run_check x (CheckErrorIs err status code) = ErrorIs (ctError x) err status code"

text \<open>What each assertion asserts.\<close>

fun check_holds :: "check \<Rightarrow> bool" where
  "check_holds (CheckNoError err op) \<longleftrightarrow> err = None"
| "check_holds (CheckEqual got want what) \<longleftrightarrow> got = want"
| "check_holds (CheckEqualNow got want what) \<longleftrightarrow> got = want"
| "check_holds (CheckStrings got want what) \<longleftrightarrow> got = want"
| "check_holds (CheckMetadata got want what) \<longleftrightarrow>
     length got = length want \<and> list_all (\<lambda>(k, v). go_index (lower_keys got) (to_lower k) = v) want"
| "check_holds (CheckOneOf err statuses code) \<longleftrightarrow>
     err \<noteq> None \<and> fst (StatusAndCode err) \<in> set statuses \<and> snd (StatusAndCode err) = code"
| "check_holds (CheckStatus err status) \<longleftrightarrow> err \<noteq> None \<and> fst (StatusAndCode err) = status"
| "check_holds (CheckErrorIs err status code) \<longleftrightarrow> err \<noteq> None \<and> StatusAndCode err = (status, code)"

definition run_checks :: "check_text \<Rightarrow> check list \<Rightarrow> ('c, 'w, unit) prog" where
  "run_checks x cs = foldr (\<lambda>c k. p_then (run_check x c) k) cs (p_return ())"

lemma metadata_differs_iff:
  "\<not> metadata_differs lower want \<longleftrightarrow> list_all (\<lambda>(k, v). go_index lower (to_lower k) = v) want"
  by (induction lower want rule: metadata_differs.induct) auto

text \<open>Every assertion meets the contract with the condition it asserts.\<close>

interpretation check: assertion "run_check x c" "check_holds c" for x c
proof (cases c)
  case (CheckNoError err op)
  then show "assertion (run_check x c) (check_holds c)" using no_error.assertion_axioms by simp
next
  case (CheckEqual got want what)
  then show "assertion (run_check x c) (check_holds c)" using equal.assertion_axioms by simp
next
  case (CheckEqualNow got want what)
  then show "assertion (run_check x c) (check_holds c)" using equal_now.assertion_axioms by simp
next
  case (CheckStrings got want what)
  then show "assertion (run_check x c) (check_holds c)" using equal_strings.assertion_axioms by simp
next
  case (CheckMetadata got want what)
  then show "assertion (run_check x c) (check_holds c)"
    using equal_metadata.assertion_axioms [of "ctMap x" got want what]
    by (simp only: run_check.simps check_holds.simps metadata_differs_iff)
next
  case (CheckOneOf err statuses code)
  then show "assertion (run_check x c) (check_holds c)" using error_one_of.assertion_axioms by simp
next
  case (CheckStatus err status)
  then show "assertion (run_check x c) (check_holds c)" using error_status.assertion_axioms by simp
next
  case (CheckErrorIs err status code)
  then show "assertion (run_check x c) (check_holds c)" using error_is.assertion_axioms by simp
qed

lemma sticky_check: "sticky (run_check x c)"
proof -
  have "sticky (t_Errorf m)" "sticky (t_Fatalf m :: ('c, 'w, unit) prog)" for m
    using op_Errorf.sticky_op op_Fatalf.sticky_op by blast+
  then show ?thesis
    by (cases c)
      (auto simp: NoError_def Equal_def EqualNow_def EqualStrings_def EqualMetadata_def ErrorIsOneOf_def
        ErrorStatus_def ErrorIs_def intro!: sticky_then split: option.splits prod.splits)
qed

lemma sticky_checks: "sticky (run_checks x cs)"
  unfolding run_checks_def by (induction cs) (auto intro!: sticky_then sticky_check)

lemma run_checks_outcome:
  "fst (run_checks x cs s) \<in> {Returned (), FailNow} \<and>
   (list_all check_holds cs \<longrightarrow> run_checks x cs s = (Returned (), s)) \<and>
   (\<not> list_all check_holds cs \<longrightarrow> hFailed (teT (snd (run_checks x cs s))))"
proof (induction cs arbitrary: s)
  case Nil
  then show ?case by (simp add: run_checks_def p_return_def)
next
  case (Cons c cs)
  have step: "run_checks x (c # cs) s = (case run_check x c s of
       (Returned _, s') \<Rightarrow> run_checks x cs s' | (e, s') \<Rightarrow> (e, s'))"
    by (simp add: run_checks_def p_then_def p_bind_def split: prod.splits exit.splits)
  obtain e s' where c: "run_check x c s = (e, s')" by (cases "run_check x c s")
  show ?case
  proof (cases "check_holds c")
    case True
    then have "run_check x c s = (Returned (), s)" by (rule check.holds)
    then show ?thesis using Cons.IH [of s] True by (simp add: step)
  next
    case False
    have f: "e = Returned () \<or> e = FailNow" "hFailed (teT s')"
      using check.fails [OF False, of x s] c by auto
    have "extends s' (snd (run_checks x cs s'))" using sticky_checks [of x cs] unfolding sticky_def by blast
    then have "hFailed (teT (snd (run_checks x cs s')))" using f(2) by (simp add: extends_def)
    then show ?thesis using f Cons.IH [of s'] False c by (auto simp: step)
  qed
qed


section \<open>Metadata\<close>

lemma h_error_changes: "update_handle (h_error m) s \<noteq> s"
proof
  assume "update_handle (h_error m) s = s"
  then have "hLogs (teT (update_handle (h_error m) s)) = hLogs (teT s)" by simp
  then show False by (simp add: h_error_def)
qed

lemma t_Errorf_changes: "t_Errorf m s \<noteq> (Returned (), s)"
  using h_error_changes by (simp add: t_Errorf_def)

text \<open>
  \<open>EqualMetadata\<close> takes an absent key for one whose value is empty: it accepts metadata that has
  another key than the one wanted.
\<close>

theorem EqualMetadata_absent_key:
  "EqualMetadata sh [(''colour'', ''red'')] [(''owner'', '''')] what s = (Returned (), s)"
  by (simp add: EqualMetadata_def lower_keys_def go_index_def to_lower_def lower_byte_def
      is_upper_ascii_def in_byte_range_def byte_def p_return_def)

definition lower_entries :: "metadata_map \<Rightarrow> metadata_map" where
  "lower_entries m = map (\<lambda>(k, v). (to_lower k, v)) m"

lemma lower_entries_Nil [simp]: "lower_entries [] = []"
  by (simp add: lower_entries_def)

lemma lower_entries_Cons [simp]: "lower_entries ((k, v) # m) = (to_lower k, v) # lower_entries m"
  by (simp add: lower_entries_def)

lemma length_lower_entries [simp]: "length (lower_entries m) = length m"
  by (simp add: lower_entries_def)

lemma lower_keys_map_of:
  assumes "distinct (map fst (lower_entries got))"
  shows "lower_keys got = map_of (lower_entries got)"
proof -
  have "foldl (\<lambda>m (k, v). m(to_lower k \<mapsto> v)) m got = m ++ map_of (lower_entries got)"
    if "distinct (map fst (lower_entries got))" for m
    using that
  proof (induction got arbitrary: m)
    case (Cons e got)
    obtain k v where e: "e = (k, v)" by (cases e)
    have "to_lower k \<notin> dom (map_of (lower_entries got))"
      using Cons.prems e by (simp add: dom_map_of_conv_image_fst)
    then have "m(to_lower k \<mapsto> v) ++ map_of (lower_entries got) = m ++ (map_of (lower_entries got))(to_lower k \<mapsto> v)"
      by (metis map_add_upd map_add_upd_left)
    moreover have "distinct (map fst (lower_entries got))" using Cons.prems e by simp
    ultimately show ?case
      using Cons.IH [of "m(to_lower k \<mapsto> v)"]
      by (simp only: e foldl_Cons prod.case lower_entries_Cons map_of.simps fst_conv snd_conv)
  qed (simp add: lower_entries_def)
  then show ?thesis using assms by (simp add: lower_keys_def)
qed

lemma metadata_differs_entries:
  "\<not> metadata_differs lower want \<longleftrightarrow> (\<forall>e \<in> set (lower_entries want). go_index lower (fst e) = snd e)"
  by (induction lower want rule: metadata_differs.induct) (auto simp: lower_entries_def)

text \<open>
  Where no wanted value is empty and no two keys of one map differ in case only, \<open>EqualMetadata\<close>
  accepts exactly the metadata that is the wanted one up to the case of its keys.
\<close>

theorem EqualMetadata_correct:
  assumes "distinct (map fst (lower_entries got))" and "distinct (map fst (lower_entries want))"
    and "[] \<notin> set (map snd (lower_entries want))"
  shows "EqualMetadata sh got want what s = (Returned (), s) \<longleftrightarrow>
    map_of (lower_entries got) = map_of (lower_entries want)"
proof -
  let ?g = "lower_entries got" and ?w = "lower_entries want"
  have "EqualMetadata sh got want what s = (Returned (), s) \<longleftrightarrow>
      length got = length want \<and> \<not> metadata_differs (lower_keys got) want"
    by (auto simp: EqualMetadata_def t_Errorf_changes p_return_def)
  moreover have "\<not> metadata_differs (lower_keys got) want \<longleftrightarrow> set ?w \<subseteq> set ?g"
  proof -
    have "go_index (map_of ?g) (fst e) = snd e \<longleftrightarrow> e \<in> set ?g" if "e \<in> set ?w" for e
    proof -
      have "snd e \<noteq> []" using assms(3) that by force
      then have "go_index (map_of ?g) (fst e) = snd e \<longleftrightarrow> map_of ?g (fst e) = Some (snd e)"
        by (auto simp: go_index_def split: option.splits)
      then show ?thesis using map_of_eq_Some_iff [OF assms(1), of "fst e" "snd e"] by simp
    qed
    then show ?thesis unfolding metadata_differs_entries lower_keys_map_of [OF assms(1)] by blast
  qed
  ultimately have "EqualMetadata sh got want what s = (Returned (), s) \<longleftrightarrow>
      length ?g = length ?w \<and> set ?w \<subseteq> set ?g" by simp
  also have "\<dots> \<longleftrightarrow> set ?g = set ?w"
  proof
    assume l: "length ?g = length ?w \<and> set ?w \<subseteq> set ?g"
    have "card (set ?g) = length ?g" "card (set ?w) = length ?w"
      using assms(1,2) by (simp_all add: distinct_map distinct_card)
    then show "set ?g = set ?w" using l by (metis List.finite_set card_subset_eq)
  next
    assume eq: "set ?g = set ?w"
    have "distinct ?g" "distinct ?w" using assms(1,2) by (simp_all add: distinct_map)
    then show "length ?g = length ?w \<and> set ?w \<subseteq> set ?g" using eq by (metis distinct_card order_refl)
  qed
  also have "\<dots> \<longleftrightarrow> map_of ?g = map_of ?w"
    using map_of_inject_set [OF assms(1,2)] by auto
  finally show ?thesis .
qed

theorem EqualMetadata_correct_witness:
  "EqualMetadata (\<lambda>_. ''map'') [(''Owner'', ''a''), (''colour'', ''red'')] [(''Colour'', ''red''), (''owner'', ''a'')] ''metadata''
     \<lparr>teT = newT ''t'' :: unit handle, teClock = 0, teWorld = ()\<rparr> =
   (Returned (), \<lparr>teT = newT ''t'', teClock = 0, teWorld = ()\<rparr>)"
proof -
  let ?g = "[(''Owner'', ''a''), (''colour'', ''red'')]" and ?w = "[(''Colour'', ''red''), (''owner'', ''a'')]"
  have l: "to_lower ''Owner'' = ''owner''" "to_lower ''owner'' = ''owner''" "to_lower ''Colour'' = ''colour''"
      "to_lower ''colour'' = ''colour''"
    by code_simp+
  have "distinct (map fst (lower_entries ?g))" "distinct (map fst (lower_entries ?w))"
      "[] \<notin> set (map snd (lower_entries ?w))"
    by (simp_all add: l)
  from EqualMetadata_correct [OF this, of "\<lambda>_. ''map''" "''metadata''" "\<lparr>teT = newT ''t'' :: unit handle, teClock = 0, teWorld = ()\<rparr>"]
  show ?thesis by (simp add: l fun_upd_twist)
qed

end
