(* ===== verification/Verdict.thy ===== *)
theory Verdict
  imports Cmd Assertions
begin

text \<open>
  What the exit code says of the programs that are the bodies of the tests: handle, assertions, one
  test, scheduler, classification and commands put together.
\<close>

section \<open>Bodies that are programs\<close>

text \<open>
  The body of a program on the handle: in some world it meets when it starts, an execution realises it.
\<close>

definition behaves :: "(nat, 'w, unit) prog \<Rightarrow> gostring \<Rightarrow> body" where
  "behaves fn name = (\<lambda>start e cexec. \<exists>w. realises e fn \<lparr>teT = newT name, teClock = start, teWorld = w\<rparr>)"

text \<open>How a program has to end for its test to have the status.\<close>

definition ended_as :: "status \<Rightarrow> unit exit \<times> ('c, 'w) tenv \<Rightarrow> bool" where
  "ended_as st end \<longleftrightarrow> (case st of
       StatusSkipped \<Rightarrow> fst end = SkipNow
     | StatusPassed \<Rightarrow> fst end = Returned () \<and> \<not> hFailed (teT (snd end))
     | _ \<Rightarrow> True)"

lemma realises_failed:
  assumes "realises e fn s" and "teT s = newT name"
  shows "hFailed (teT (snd (fn s))) \<longleftrightarrow> has_error (exTime e) (exOps e)"
proof -
  have "teT (snd (fn s)) = handle_at name (exTime e) (exOps e)"
    using assms by (simp add: realises_def handle_at_def until_all)
  then show ?thesis by simp
qed

lemma body_ended_as:
  assumes "runBody r env name start e = Some b" and "\<not> boAbandoned b"
    and "realises e fn s" and "teT s = newT name"
  shows "ended_as (boStatus b) (fn s)"
proof -
  have inv: "invoke_exec name (stack env) e = (Some (boStatus b), boOps b)"
    using assms(1,2) by (cases rule: runBody_cases) simp_all
  have x: "fst (fn s) = exExit e" using assms(3) by (simp add: realises_def)
  show ?thesis
    using inv x realises_failed [OF assms(3,4)]
    by (cases "exExit e") (auto simp: invoke_exec_def ended_as_def split: if_splits)
qed

lemma final_status_ended:
  assumes "final_status ab st expired failed \<in> {StatusPassed, StatusSkipped}"
  shows "\<not> ab \<and> st = final_status ab st expired failed"
  using assms by (auto simp: final_status_def split: if_splits)

lemma runOne_ended_as:
  assumes "runOne r env test start e cexec = Some (res, now)"
    and "realises e fn s" and "teT s = newT (tName test)"
  shows "ended_as (resStatus res) (fn s)"
proof (cases "resStatus res \<in> {StatusPassed, StatusSkipped}")
  case True
  obtain b ops where b: "runBody r env (tName test) start e = Some b"
    and c: "runCleanups r env (tName test) cexec (boOps b) (boTime b) = Some (ops, now)"
    and f: "resStatus res = final_status (boAbandoned b) (boStatus b) (ctx_expired r env start now) (has_error now ops)"
    using runOne_cases [OF assms(1)] by metis
  have "\<not> boAbandoned b \<and> boStatus b = resStatus res"
    using final_status_ended True unfolding f by fastforce
  then show ?thesis using body_ended_as [OF b _ assms(2,3)] by simp
next
  case False
  then show ?thesis by (cases "resStatus res") (simp_all add: ended_as_def)
qed

lemma outcome_ended_as:
  assumes "outcome_of r b tests i res" and "tFn (tests ! i) = Some (behaves fn (tName (tests ! i)))"
  shows "\<exists>now w. ended_as (resStatus res) (fn \<lparr>teT = newT (tName (tests ! i)), teClock = now, teWorld = w\<rparr>)"
proof -
  obtain start e env cexec now where e: "behaves fn (tName (tests ! i)) start e cexec"
      "runOne r env (tests ! i) start e cexec = Some (res, now)"
    using assms unfolding outcome_of_def yields_def by fastforce
  then obtain w where "realises e fn \<lparr>teT = newT (tName (tests ! i)), teClock = start, teWorld = w\<rparr>"
    by (auto simp: behaves_def)
  from runOne_ended_as [OF e(2) this] show ?thesis by auto
qed

section \<open>The exit code\<close>

text \<open>The results behind exit code 0.\<close>

lemma exit_zero_results:
  assumes "cmd_prepare w s fl cfgPath = Inr pl"
    and "runs_to (plRunner pl) (plTests pl) (run (plRunner pl) (plTests pl))"
    and "main_exit (crError (cmdRun w io s fl cfgPath run)) = 0"
    and "i < length (plTests pl)"
  shows "outcome_of (plRunner pl) False (plTests pl) i (roResults (run (plRunner pl) (plTests pl)) ! i) \<and>
    as_expected (plKnown pl) (roResults (run (plRunner pl) (plTests pl)) ! i) \<and>
    resTest (roResults (run (plRunner pl) (plTests pl)) ! i) = plTests pl ! i"
  using list_all2_nthD [OF exit_zero_outcomes [OF assms(1-3)], of i] assms(4) by simp

text \<open>
  C1. Exit code 0 vouches for the tests: if \<open>s3t run\<close> exits with 0, then each selected test that is not
  listed as a known failure, and whose body is the program \<open>fn\<close>, has run to its end in some world,
  where \<open>fn\<close> either called \<open>Skipf\<close>, and its result says so, or returned without a failure on its
  handle, and its result is a pass.
\<close>

theorem exit_zero_sound:
  assumes "cmd_prepare w s fl cfgPath = Inr pl"
    and "runs_to (plRunner pl) (plTests pl) (run (plRunner pl) (plTests pl))"
    and "main_exit (crError (cmdRun w io s fl cfgPath run)) = 0"
    and "i < length (plTests pl)" and "\<not> kf_expected (plKnown pl) (tName (plTests pl ! i))"
    and "tFn (plTests pl ! i) = Some (behaves fn (tName (plTests pl ! i)))"
  shows "\<exists>now wo x s'. fn \<lparr>teT = newT (tName (plTests pl ! i)), teClock = now, teWorld = wo\<rparr> = (x, s') \<and>
    (x = SkipNow \<and> resStatus (roResults (run (plRunner pl) (plTests pl)) ! i) = StatusSkipped \<or>
     x = Returned () \<and> \<not> hFailed (teT s') \<and>
       resStatus (roResults (run (plRunner pl) (plTests pl)) ! i) = StatusPassed)"
proof -
  let ?res = "roResults (run (plRunner pl) (plTests pl)) ! i"
  have r: "outcome_of (plRunner pl) False (plTests pl) i ?res" "as_expected (plKnown pl) ?res"
      "resTest ?res = plTests pl ! i"
    using exit_zero_results [OF assms(1-4)] by simp_all
  have st: "resStatus ?res = StatusPassed \<or> resStatus ?res = StatusSkipped"
    using r(2,3) assms(5) by (simp add: as_expected_def)
  obtain now wo where e: "ended_as (resStatus ?res)
      (fn \<lparr>teT = newT (tName (plTests pl ! i)), teClock = now, teWorld = wo\<rparr>)"
    using outcome_ended_as [OF r(1) assms(6)] by blast
  show ?thesis
    by (rule exI [of _ now], rule exI [of _ wo], rule exI, rule exI, rule conjI [OF prod.collapse [symmetric]])
      (use st e in \<open>auto simp: ended_as_def\<close>)
qed

text \<open>
  For a test whose body is a series of assertions exit code 0 means that every one of them holds.
\<close>

theorem exit_zero_checks:
  assumes "cmd_prepare w s fl cfgPath = Inr pl"
    and "runs_to (plRunner pl) (plTests pl) (run (plRunner pl) (plTests pl))"
    and "main_exit (crError (cmdRun w io s fl cfgPath run)) = 0"
    and "i < length (plTests pl)" and "\<not> kf_expected (plKnown pl) (tName (plTests pl ! i))"
    and "tFn (plTests pl ! i) = Some (behaves (run_checks x cs :: (nat, 'w, unit) prog) (tName (plTests pl ! i)))"
  shows "list_all check_holds cs"
proof -
  let ?fn = "run_checks x cs :: (nat, 'w, unit) prog"
  let ?res = "roResults (run (plRunner pl) (plTests pl)) ! i"
  have r: "outcome_of (plRunner pl) False (plTests pl) i ?res" "as_expected (plKnown pl) ?res"
      "resTest ?res = plTests pl ! i"
    using exit_zero_results [OF assms(1-4)] by simp_all
  obtain now wo where e: "ended_as (resStatus ?res)
      (?fn \<lparr>teT = newT (tName (plTests pl ! i)), teClock = now, teWorld = wo\<rparr>)"
    using outcome_ended_as [OF r(1) assms(6)] by blast
  have "resStatus ?res = StatusPassed \<or> resStatus ?res = StatusSkipped"
    using r(2,3) assms(5) by (simp add: as_expected_def)
  then show ?thesis
    using e run_checks_outcome [of x cs "\<lparr>teT = newT (tName (plTests pl ! i)), teClock = now, teWorld = wo\<rparr>"]
    by (auto simp: ended_as_def)
qed

section \<open>Example\<close>

definition sample_checks :: "check list" where
  "sample_checks = [CheckEqual 200 200 ''status'']"

definition sample_texts :: check_text where
  "sample_texts = \<lparr>ctError = (\<lambda>_. []), ctStrings = (\<lambda>_. []), ctMap = (\<lambda>_. [])\<rparr>"

definition sample_program :: body where
  "sample_program = behaves (run_checks sample_texts sample_checks :: (nat, unit, unit) prog) ''t''"

lemma sample_program_body: "body_returns [] (sample_case sample_program)"
  by (rule sample_case_returns) (simp add: sample_program_def behaves_def realises_def example_body_def apply_ops_def
      sample_checks_def run_checks_def Equal_def p_then_def p_return_def p_bind_def)

lemma sample_program_run:
  "\<exists>pl. cmd_prepare (sample_world sample_program) sample_selection sample_flags ''c'' = Inr pl \<and>
    runs_to (plRunner pl) (plTests pl) (sample_outcome (sample_case sample_program)) \<and>
    main_exit (crError (cmdRun (sample_world sample_program) sample_io sample_selection sample_flags ''c''
      (\<lambda>_ _. sample_outcome (sample_case sample_program)))) = 0 \<and>
    plTests pl = [sample_case sample_program] \<and> plKnown pl = None"
proof -
  obtain pl where pl: "cmd_prepare (sample_world sample_program) sample_selection sample_flags ''c'' = Inr pl"
      "plRunner pl = sample_runner" "plTests pl = [sample_case sample_program]" "plKnown pl = None"
    using sample_prepare by blast
  then show ?thesis
    using sample_runs [OF sample_program_body _ sample_case_parallel] sample_exit [OF pl(1,4)] by auto
qed

lemma sample_case_fn: "tFn (sample_case sample_program) =
    Some (behaves (run_checks sample_texts sample_checks :: (nat, unit, unit) prog) (tName (sample_case sample_program)))"
  by (simp add: sample_case_def sample_program_def example_case_def)

theorem exit_zero_sound_witness:
  "\<exists>s' :: (nat, unit) tenv. \<exists>now. run_checks sample_texts sample_checks
      \<lparr>teT = newT ''t'', teClock = now, teWorld = ()\<rparr> = (Returned (), s') \<and> \<not> hFailed (teT s')"
proof -
  obtain pl where pl: "cmd_prepare (sample_world sample_program) sample_selection sample_flags ''c'' = Inr pl"
      "runs_to (plRunner pl) (plTests pl) (sample_outcome (sample_case sample_program))"
      "main_exit (crError (cmdRun (sample_world sample_program) sample_io sample_selection sample_flags ''c''
        (\<lambda>_ _. sample_outcome (sample_case sample_program)))) = 0"
      "plTests pl = [sample_case sample_program]" "plKnown pl = None"
    using sample_program_run by blast
  show ?thesis
    using exit_zero_sound [of "sample_world sample_program" sample_selection sample_flags "''c''" pl
        "\<lambda>_ _. sample_outcome (sample_case sample_program)" sample_io 0
        "run_checks sample_texts sample_checks :: (nat, unit, unit) prog"] pl sample_case_fn
    by (auto simp: kf_expected_def sample_outcome_def sample_result_def sample_case_def example_case_def)
qed

theorem exit_zero_checks_witness: "list_all check_holds sample_checks"
proof -
  obtain pl where pl: "cmd_prepare (sample_world sample_program) sample_selection sample_flags ''c'' = Inr pl"
      "runs_to (plRunner pl) (plTests pl) (sample_outcome (sample_case sample_program))"
      "main_exit (crError (cmdRun (sample_world sample_program) sample_io sample_selection sample_flags ''c''
        (\<lambda>_ _. sample_outcome (sample_case sample_program)))) = 0"
      "plTests pl = [sample_case sample_program]" "plKnown pl = None"
    using sample_program_run by blast
  show ?thesis
    by (rule exit_zero_checks [OF pl(1), of "\<lambda>_ _. sample_outcome (sample_case sample_program)" sample_io 0
        sample_texts, where 'w = unit]) (use pl sample_case_fn in \<open>simp_all add: kf_expected_def\<close>)
qed

end
