(* ===== verification/Fixture.thy ===== *)
theory Fixture
  imports TestHandle Client Decimal
begin

text \<open>
  The environment of one test (\<open>internal/fixture\<close>): bucket names, creating a bucket and registering its
  removal, emptying and deleting it, and the retries around that work. The server is a parameter: a
  record of the SDK calls the fixture makes, each an action on the clock and the world. A client is
  the options it was built with.
\<close>

section \<open>Names\<close>

definition maxSlugLen :: nat where
  "maxSlugLen = 16"

text \<open>
  One step of the loop of \<open>slug\<close> on a byte. A rune beyond ASCII is several bytes none of which is a
  letter or digit, and a dash is written once for a run of them, so bytes give what runes give.
\<close>

definition slug_byte :: "gostring \<Rightarrow> char \<Rightarrow> gostring" where
  "slug_byte b c =
     (if length b = maxSlugLen then b
      else if is_lower_ascii c \<or> is_digit_ascii c then b @ [c]
      else if is_upper_ascii c then b @ [lower_byte c]
      else if b \<noteq> [] \<and> \<not> has_suffix b ''-'' then b @ ''-''
      else b)"

definition trim_dashes :: "gostring \<Rightarrow> gostring" where
  "trim_dashes s = rev (dropWhile (\<lambda>c. c = CHR ''-'') (rev (dropWhile (\<lambda>c. c = CHR ''-'') s)))"

definition slug :: "gostring \<Rightarrow> gostring" where
  "slug name = trim_dashes (foldl slug_byte [] name)"

text \<open>The four draws of \<open>token\<close> are a parameter.\<close>

definition token :: "(nat \<Rightarrow> nat) \<Rightarrow> gostring" where
  "token draws = map (\<lambda>i. alphabet ! draws i) [0 ..< 4]"

record fixture_env =
  eCfg :: config
  eClients :: factory
  ePrefix :: gostring
  eN :: nat

definition NewEnv :: "(nat \<Rightarrow> nat) \<Rightarrow> 'c handle \<Rightarrow> config \<Rightarrow> factory \<Rightarrow> fixture_env" where
  "NewEnv draws t cfg clients = \<lparr>eCfg = cfg, eClients = clients,
     ePrefix = BucketPrefixName cfg @ slug (hName t) @ ''-'' @ token draws @ ''-'', eN = 0\<rparr>"

text \<open>The clients of the environment are those of its factory; \<open>now\<close> is the clock of the v2 signer.\<close>

definition e_Client :: "fixture_env \<Rightarrow> s3_options" where
  "e_Client e = MainClient (eClients e)"

definition e_AltClient :: "fixture_env \<Rightarrow> s3_options" where
  "e_AltClient e = AltClient (eClients e)"

definition e_V2Client :: "fixture_env \<Rightarrow> gostring \<Rightarrow> s3_options" where
  "e_V2Client e now = V2 (eClients e) now"

definition e_AnonymousClient :: "fixture_env \<Rightarrow> s3_options" where
  "e_AnonymousClient e = Anonymous (eClients e)"

definition e_HTTP :: "fixture_env \<Rightarrow> http_client" where
  "e_HTTP e = HTTP (eClients e)"

definition e_Presign :: "fixture_env \<Rightarrow> presigner" where
  "e_Presign e = Presign (eClients e)"

definition e_PresignTenant :: "fixture_env \<Rightarrow> presigner" where
  "e_PresignTenant e = PresignTenant (eClients e)"

definition e_TenantClient :: "fixture_env \<Rightarrow> s3_options" where
  "e_TenantClient e = TenantClient (eClients e)"

definition e_BadAuthClient :: "fixture_env \<Rightarrow> gostring \<Rightarrow> s3_options" where
  "e_BadAuthClient e accessKey = BadAuth (eClients e) accessKey"

definition e_WithContentLength :: "fixture_env \<Rightarrow> gostring \<Rightarrow> s3_option" where
  "e_WithContentLength e v = WithContentLength (eClients e) v"

definition e_WithoutContentLength :: "fixture_env \<Rightarrow> s3_option" where
  "e_WithoutContentLength e = WithoutContentLength (eClients e)"

definition e_Prefix :: "fixture_env \<Rightarrow> gostring" where
  "e_Prefix e = ePrefix e"

definition NewBucketName :: "fixture_env \<Rightarrow> gostring \<times> fixture_env" where
  "NewBucketName e = (let n = eN e + 1 in (ePrefix e @ nat_dec n, e\<lparr>eN := n\<rparr>))"

lemma length_slug_loop: "length b \<le> maxSlugLen \<Longrightarrow> length (foldl slug_byte b name) \<le> maxSlugLen"
proof (induction name arbitrary: b)
  case (Cons c name)
  have "length (slug_byte b c) \<le> maxSlugLen" using Cons.prems by (auto simp: slug_byte_def)
  then show ?case using Cons.IH by simp
qed simp

lemma length_trim_dashes: "length (trim_dashes s) \<le> length s"
  unfolding trim_dashes_def by (metis length_dropWhile_le length_rev order_trans)

lemma length_slug: "length (slug name) \<le> 16"
  using length_trim_dashes [of "foldl slug_byte [] name"] length_slug_loop [of "[]" name]
  by (simp add: slug_def maxSlugLen_def)

definition bucket_byte :: "char \<Rightarrow> bool" where
  "bucket_byte c \<longleftrightarrow> is_lower_ascii c \<or> is_digit_ascii c \<or> c = CHR ''-''"

lemma lower_upper_ascii: "is_upper_ascii c \<Longrightarrow> is_lower_ascii (lower_byte c)"
proof -
  assume u: "is_upper_ascii c"
  then have "byte (lower_byte c) = byte c + 32" "65 \<le> byte c" "byte c \<le> 90"
    by (auto simp: lower_byte_def byte_def is_upper_ascii_def in_byte_range_def)
  then show ?thesis unfolding is_lower_ascii_def in_byte_range_def by linarith
qed

lemma bucket_byteI:
  "is_lower_ascii c \<Longrightarrow> bucket_byte c" "is_digit_ascii c \<Longrightarrow> bucket_byte c" "bucket_byte (CHR ''-'')"
  by (simp_all add: bucket_byte_def)

lemma slug_loop_bytes: "list_all bucket_byte b \<Longrightarrow> list_all bucket_byte (foldl slug_byte b name)"
proof (induction name arbitrary: b)
  case (Cons c name)
  have "list_all bucket_byte (slug_byte b c)"
    using Cons.prems bucket_byteI by (simp add: slug_byte_def lower_upper_ascii)
  then show ?case using Cons.IH by simp
qed simp

lemma set_trim_dashes: "set (trim_dashes s) \<subseteq> set s"
  unfolding trim_dashes_def by (metis set_dropWhileD set_rev subsetI)

lemma slug_bytes: "list_all bucket_byte (slug name)"
  using slug_loop_bytes [of "[]" name] set_trim_dashes unfolding slug_def
  by (auto simp: list_all_iff)

lemma alphabet_bytes: "list_all (\<lambda>c. is_lower_ascii c \<or> is_digit_ascii c) alphabet"
  by (simp add: alphabet_def is_lower_ascii_def is_digit_ascii_def in_byte_range_def byte_def)

lemma length_alphabet: "length alphabet = 36"
  by (simp add: alphabet_def)

lemma token_bytes: "\<forall>i. draws i < 36 \<Longrightarrow> list_all bucket_byte (token draws)"
  using alphabet_bytes by (auto simp: token_def list_all_iff bucket_byte_def length_alphabet)

text \<open>The names an environment hands out, one call after the other.\<close>

fun bucket_names :: "nat \<Rightarrow> fixture_env \<Rightarrow> gostring list" where
  "bucket_names 0 e = []"
| "bucket_names (Suc k) e = (case NewBucketName e of (name, e') \<Rightarrow> name # bucket_names k e')"

lemma bucket_names_eq: "bucket_names k e = map (\<lambda>i. ePrefix e @ nat_dec (eN e + 1 + i)) [0 ..< k]"
proof (induction k arbitrary: e)
  case (Suc k)
  have up: "[0 ..< Suc k] = 0 # map Suc [0 ..< k]" by (simp add: upt_conv_Cons map_Suc_upt del: upt_Suc)
  show ?case using Suc [of "e\<lparr>eN := Suc (eN e)\<rparr>"]
    by (simp add: NewBucketName_def up comp_def del: upt_Suc)
qed simp

text \<open>
  C33. The names of a test's buckets are distinct and valid: with a prefix of at most 30 characters each
  has at most 63, and with a prefix of bucket characters each has bucket characters only.
\<close>

theorem bucket_names_valid:
  assumes "length (BucketPrefixName cfg) \<le> maxPrefixLen" and "k < 10 ^ 11" and "\<forall>i. draws i < 36"
  shows "distinct (bucket_names k (NewEnv draws t cfg f)) \<and>
    (\<forall>n \<in> set (bucket_names k (NewEnv draws t cfg f)). length n \<le> 63 \<and>
      (list_all bucket_byte (BucketPrefixName cfg) \<longrightarrow> list_all bucket_byte n))"
proof
  show "distinct (bucket_names k (NewEnv draws t cfg f))"
    by (auto simp: bucket_names_eq distinct_map inj_on_def dest: nat_dec_inj)
  show "\<forall>n \<in> set (bucket_names k (NewEnv draws t cfg f)). length n \<le> 63 \<and>
      (list_all bucket_byte (BucketPrefixName cfg) \<longrightarrow> list_all bucket_byte n)"
  proof
    fix n
    assume "n \<in> set (bucket_names k (NewEnv draws t cfg f))"
    then obtain i where i: "i < k" "n = ePrefix (NewEnv draws t cfg f) @ nat_dec (Suc i)"
      by (auto simp: bucket_names_eq NewEnv_def)
    have "length (nat_dec (Suc i)) \<le> 11" using i(1) assms(2) by (intro length_nat_dec) auto
    then have "length n \<le> 63" using length_slug [of "hName t"] assms(1) i(2)
      by (simp add: NewEnv_def token_def maxPrefixLen_def)
    moreover have "list_all bucket_byte (nat_dec (Suc i))"
      using nat_dec_digits by (auto simp: list_all_iff bucket_byte_def)
    ultimately show "length n \<le> 63 \<and> (list_all bucket_byte (BucketPrefixName cfg) \<longrightarrow> list_all bucket_byte n)"
      using slug_bytes [of "hName t"] token_bytes [OF assms(3)] i(2)
      by (simp add: NewEnv_def bucket_byte_def)
  qed
qed

theorem bucket_names_valid_witness:
  "distinct (bucket_names 2 (NewEnv (\<lambda>_. 0) (newT ''my_Test'' :: nat handle) example_cfg (NewFactory example_cfg)))"
proof -
  have "length (BucketPrefixName example_cfg) \<le> maxPrefixLen"
    by (simp add: example_cfg_def maxPrefixLen_def Let_def)
  then show ?thesis
    using bucket_names_valid [where cfg = example_cfg and k = 2 and draws = "\<lambda>_. 0"
        and t = "newT ''my_Test'' :: nat handle" and f = "NewFactory example_cfg"] by simp
qed

section \<open>The server\<close>

type_synonym sdk_error = "err_layer list"

record object_id =
  oidKey :: gostring
  oidVersion :: gostring

record refusal =
  rfId :: object_id
  rfCode :: gostring

type_synonym marker = "gostring \<times> gostring"

record version_page =
  pgVersions :: "object_id list"
  pgMarkers :: "object_id list"
  pgTruncated :: bool
  pgNext :: marker

record delete_input =
  diBucket :: gostring
  diObjects :: "object_id list"
  diQuiet :: bool
  diBypass :: "bool option"

type_synonym ('w, 'a) act = "int \<times> 'w \<Rightarrow> 'a \<times> int \<times> 'w"

record 'w s3api =
  apiCreateBucket :: "s3_options \<Rightarrow> gostring \<Rightarrow> ('w, sdk_error option) act"
  apiDeleteBucket :: "s3_options \<Rightarrow> gostring \<Rightarrow> ('w, sdk_error option) act"
  apiListVersions :: "s3_options \<Rightarrow> gostring \<Rightarrow> marker option \<Rightarrow> ('w, sdk_error + version_page) act"
  apiDeleteObjects :: "s3_options \<Rightarrow> delete_input \<Rightarrow> ('w, sdk_error + refusal list) act"
  apiRetention :: "s3_options \<Rightarrow> gostring \<Rightarrow> object_id \<Rightarrow> ('w, int option) act"
  apiErrText :: "sdk_error \<Rightarrow> gostring"

text \<open>A call acts on the clock and the world; the handle is not its business.\<close>

definition call :: "('w, 'a) act \<Rightarrow> ('c, 'w) tenv \<Rightarrow> 'a \<times> ('c, 'w) tenv" where
  "call a s = (case a (teClock s, teWorld s) of (r, now, w) \<Rightarrow> (r, s\<lparr>teClock := now, teWorld := w\<rparr>))"

lemma teT_call [simp]: "teT (snd (call a s)) = teT s"
  by (simp add: call_def split: prod.splits)

section \<open>Retries\<close>

definition retryBudget :: int where
  "retryBudget = 30 * 1000000000"

definition first_delay :: int where
  "first_delay = 50 * 1000000"

definition throttled :: "sdk_error option \<Rightarrow> bool" where
  "throttled err = (case StatusAndCode err of (st, code) \<Rightarrow>
     st = 503 \<or> code = ''SlowDown'' \<or> code = ''ServiceUnavailable'')"

text \<open>
  The loop of \<open>retryThrottled\<close>, with fuel for its rounds. \<open>fn\<close> is the retried work, \<open>None\<close> when it
  never returns; \<open>jitter\<close> is \<open>rand.N\<close>; \<open>cancel\<close> is when the context is done, if it ever is.
\<close>

fun retry_loop :: "nat \<Rightarrow> (nat \<Rightarrow> int \<Rightarrow> int) \<Rightarrow> int option \<Rightarrow> int \<Rightarrow> nat \<Rightarrow> int \<Rightarrow>
    (('c, 'w) tenv \<Rightarrow> (sdk_error option \<times> ('c, 'w) tenv) option) \<Rightarrow> ('c, 'w) tenv \<Rightarrow>
    (sdk_error option \<times> ('c, 'w) tenv) option" where
  "retry_loop 0 jitter cancel deadline attempt delay fn s = None"
| "retry_loop (Suc fuel) jitter cancel deadline attempt delay fn s =
     (case fn s of
        None \<Rightarrow> None
      | Some (err, s') \<Rightarrow>
          if err = None \<or> \<not> throttled err \<or> teClock s' > deadline then Some (err, s')
          else
            let wait = delay + jitter attempt delay;
                delay' = (if delay < 4 * 1000000000 then delay * 2 else delay);
                woken = teClock s' + wait in
            (case cancel of
               Some c \<Rightarrow>
                 if c < woken then Some (err, s'\<lparr>teClock := max (teClock s') c\<rparr>)
                 else retry_loop fuel jitter cancel deadline (attempt + 1) delay' fn (s'\<lparr>teClock := woken\<rparr>)
             | None \<Rightarrow> retry_loop fuel jitter cancel deadline (attempt + 1) delay' fn (s'\<lparr>teClock := woken\<rparr>)))"

definition retry_fuel :: nat where
  "retry_fuel = 602"

definition retryThrottled :: "(nat \<Rightarrow> int \<Rightarrow> int) \<Rightarrow> int option \<Rightarrow>
    (('c, 'w) tenv \<Rightarrow> (sdk_error option \<times> ('c, 'w) tenv) option) \<Rightarrow> ('c, 'w) tenv \<Rightarrow>
    (sdk_error option \<times> ('c, 'w) tenv) option" where
  "retryThrottled jitter cancel fn s =
     retry_loop retry_fuel jitter cancel (teClock s + retryBudget) 0 first_delay fn s"

text \<open>Work whose call always returns, no earlier than it was made.\<close>

definition timely :: "(('c, 'w) tenv \<Rightarrow> (sdk_error option \<times> ('c, 'w) tenv) option) \<Rightarrow> bool" where
  "timely fn \<longleftrightarrow> (\<forall>s. \<exists>err s'. fn s = Some (err, s') \<and> teClock s \<le> teClock s')"

lemma retry_loop_step:
  "fn s = Some (err, s') \<Longrightarrow>
    (err = None \<or> \<not> throttled err \<or> teClock s' > deadline) \<and>
      retry_loop (Suc k) jitter cancel deadline attempt delay fn s = Some (err, s') \<or>
    (\<exists>c. cancel = Some c \<and>
      retry_loop (Suc k) jitter cancel deadline attempt delay fn s = Some (err, s'\<lparr>teClock := max (teClock s') c\<rparr>)) \<or>
    retry_loop (Suc k) jitter cancel deadline attempt delay fn s =
      retry_loop k jitter cancel deadline (attempt + 1)
        (if delay < 4 * 1000000000 then delay * 2 else delay) fn
        (s'\<lparr>teClock := teClock s' + (delay + jitter attempt delay)\<rparr>)"
  by (cases cancel) (simp_all add: Let_def)

declare retry_loop.simps(2) [simp del]

lemma retry_loop_returns:
  assumes "timely fn" and "\<And>a d. 0 \<le> jitter a d"
  shows "first_delay \<le> delay \<Longrightarrow> deadline - teClock s < int k * first_delay \<Longrightarrow>
    \<exists>err s'. retry_loop (Suc k) jitter cancel deadline attempt delay fn s = Some (err, s')"
proof (induction k arbitrary: attempt delay s)
  case 0
  obtain err s' where f: "fn s = Some (err, s')" "teClock s \<le> teClock s'"
    using assms(1) by (metis timely_def)
  then have "teClock s' > deadline" using 0 by simp
  with f(1) show ?case by (simp add: retry_loop.simps)
next
  case (Suc k)
  obtain err s' where f: "fn s = Some (err, s')" "teClock s \<le> teClock s'"
    using assms(1) by (metis timely_def)
  let ?d = "if delay < 4 * 1000000000 then delay * 2 else delay"
  let ?t = "s'\<lparr>teClock := teClock s' + (delay + jitter attempt delay)\<rparr>"
  have pos: "0 < first_delay" by (simp add: first_delay_def)
  have "deadline - teClock ?t < int k * first_delay"
    using Suc.prems f(2) assms(2) [of attempt delay] by (simp add: algebra_simps)
  moreover have "first_delay \<le> ?d" using Suc.prems pos by auto
  ultimately obtain err2 s2 where
    "retry_loop (Suc k) jitter cancel deadline (attempt + 1) ?d fn ?t = Some (err2, s2)"
    using Suc.IH by blast
  then show ?case
    using retry_loop_step [of fn s err s'] f(1) by metis
qed

lemma retry_loop_result:
  "retry_loop k jitter cancel deadline attempt delay fn s = Some (err, s') \<Longrightarrow>
    (\<exists>s0 t. fn s0 = Some (err, t) \<and> teWorld s' = teWorld t \<and> teT s' = teT t) \<and>
    (err = None \<or> \<not> throttled err \<or> teClock s' > deadline \<or> (\<exists>c. cancel = Some c \<and> c \<le> teClock s'))"
proof (induction k arbitrary: attempt delay s)
  case (Suc k)
  obtain err1 s1 where f: "fn s = Some (err1, s1)"
    using Suc.prems by (cases "fn s") (auto simp: retry_loop.simps)
  show ?case
    using retry_loop_step [of fn s err1 s1 deadline k jitter cancel attempt delay, OF f]
  proof (elim disjE exE conjE)
    fix c
    assume "cancel = Some c"
      "retry_loop (Suc k) jitter cancel deadline attempt delay fn s = Some (err1, s1\<lparr>teClock := max (teClock s1) c\<rparr>)"
    then have "err1 = err" "s' = s1\<lparr>teClock := max (teClock s1) c\<rparr>" using Suc.prems by simp_all
    then have "fn s = Some (err, s1) \<and> teWorld s' = teWorld s1 \<and> teT s' = teT s1 \<and> c \<le> teClock s'"
      using f by simp
    then show ?thesis using \<open>cancel = Some c\<close> by blast
  next
    assume "retry_loop (Suc k) jitter cancel deadline attempt delay fn s =
      retry_loop k jitter cancel deadline (attempt + 1)
        (if delay < 4 * 1000000000 then delay * 2 else delay) fn
        (s1\<lparr>teClock := teClock s1 + (delay + jitter attempt delay)\<rparr>)"
    then show ?thesis using Suc.prems Suc.IH by metis
  qed (use Suc.prems f in auto)
qed simp

lemma retry_returns:
  assumes "timely fn" and "\<And>a d. 0 \<le> jitter a d"
  shows "\<exists>err s'. retryThrottled jitter cancel fn s = Some (err, s')"
proof -
  have "teClock s + retryBudget - teClock s < int 601 * first_delay"
    by (simp add: retryBudget_def first_delay_def)
  then show ?thesis unfolding retryThrottled_def retry_fuel_def
    using retry_loop_returns [OF assms order_refl, where k = 601] by simp
qed

text \<open>
  C34. Retrying ends: over work that returns, \<open>retryThrottled\<close> makes at most 602 attempts, and what it
  returns is the answer of its last attempt, which succeeded, failed for another reason than
  throttling, or came after the budget or the cancellation.
\<close>

theorem retryThrottled_ends:
  assumes "timely fn" and "\<And>a d. 0 \<le> jitter a d"
  shows "\<exists>err s'. retryThrottled jitter cancel fn s = Some (err, s') \<and>
    (\<exists>s0 t. fn s0 = Some (err, t) \<and> teWorld s' = teWorld t \<and> teT s' = teT t) \<and>
    (err = None \<or> \<not> throttled err \<or> teClock s' > teClock s + retryBudget \<or>
      (\<exists>c. cancel = Some c \<and> c \<le> teClock s'))"
proof -
  obtain err s' where "retryThrottled jitter cancel fn s = Some (err, s')"
    using retry_returns [of fn jitter, OF assms] by blast
  moreover from this have "retry_loop retry_fuel jitter cancel (teClock s + retryBudget) 0 first_delay fn s = Some (err, s')"
    by (simp add: retryThrottled_def)
  ultimately show ?thesis using retry_loop_result by metis
qed

text \<open>A server that answers SlowDown for a second and then succeeds.\<close>

definition example_busy :: "(nat, unit) tenv \<Rightarrow> (sdk_error option \<times> (nat, unit) tenv) option" where
  "example_busy s = Some (if teClock s < 1000000000
     then Some [\<lparr>elStatus = Some 503, elCode = Some ''SlowDown''\<rparr>] else None, s)"

theorem retryThrottled_ends_witness:
  "\<exists>s'. retryThrottled (\<lambda>_ _. 0) None example_busy
    \<lparr>teT = newT ''t'', teClock = 0, teWorld = ()\<rparr> = Some (None, s')"
proof -
  let ?s = "\<lparr>teT = newT ''t'', teClock = 0, teWorld = ()\<rparr> :: (nat, unit) tenv"
  have "timely example_busy" by (auto simp: timely_def example_busy_def)
  from retryThrottled_ends [OF this, of "\<lambda>_ _. 0" None ?s] obtain err s' where
    r: "retryThrottled (\<lambda>_ _. 0) None example_busy ?s = Some (err, s')" by auto
  moreover have "retryThrottled (\<lambda>_ _. 0) None example_busy ?s = Some (None, ?s\<lparr>teClock := 1550000000\<rparr>)"
    by (simp add: retryThrottled_def retry_fuel_def eval_nat_numeral retry_loop.simps example_busy_def
        first_delay_def retryBudget_def throttled_def StatusAndCode_def Let_def)
  ultimately have "err = None" by simp
  with r show ?thesis by blast
qed

section \<open>Buckets\<close>

text \<open>
  Creating a bucket: \<open>Fatalf\<close> when it cannot be created, else its removal is registered. \<open>nuke_fn\<close> names
  the closure that removes a bucket, \<open>cancel\<close> is when the test's context ends.
\<close>

definition lift_act :: "('w, 'a) act \<Rightarrow> ('c, 'w) tenv \<Rightarrow> ('a \<times> ('c, 'w) tenv) option" where
  "lift_act a s = Some (call a s)"

definition createBucket :: "'w s3api \<Rightarrow> (nat \<Rightarrow> int \<Rightarrow> int) \<Rightarrow> int option \<Rightarrow>
    (s3_options \<Rightarrow> gostring \<Rightarrow> 'c) \<Rightarrow> s3_options \<Rightarrow> gostring \<Rightarrow> ('c, 'w, gostring) prog" where
  "createBucket api jitter cancel nuke_fn c name s =
     (case retryThrottled jitter cancel (lift_act (apiCreateBucket api c name)) s of
        None \<Rightarrow> (Hangs, s)
      | Some (Some err, s') \<Rightarrow> t_Fatalf (''create bucket '' @ name @ '': '' @ apiErrText api err) s'
      | Some (None, s') \<Rightarrow> p_then (t_Cleanup (nuke_fn c name)) (p_return name) s')"

definition NewBucketFor :: "'w s3api \<Rightarrow> (nat \<Rightarrow> int \<Rightarrow> int) \<Rightarrow> int option \<Rightarrow>
    (s3_options \<Rightarrow> gostring \<Rightarrow> 'c) \<Rightarrow> fixture_env \<Rightarrow> s3_options \<Rightarrow>
    ('c, 'w, gostring) prog \<times> fixture_env" where
  "NewBucketFor api jitter cancel nuke_fn e c =
     (case NewBucketName e of (name, e') \<Rightarrow> (createBucket api jitter cancel nuke_fn c name, e'))"

definition NewBucket :: "'w s3api \<Rightarrow> (nat \<Rightarrow> int \<Rightarrow> int) \<Rightarrow> int option \<Rightarrow>
    (s3_options \<Rightarrow> gostring \<Rightarrow> 'c) \<Rightarrow> fixture_env \<Rightarrow> ('c, 'w, gostring) prog \<times> fixture_env" where
  "NewBucket api jitter cancel nuke_fn e =
     NewBucketFor api jitter cancel nuke_fn e (e_Client e)"

definition NewBucketNamed :: "'w s3api \<Rightarrow> (nat \<Rightarrow> int \<Rightarrow> int) \<Rightarrow> int option \<Rightarrow>
    (s3_options \<Rightarrow> gostring \<Rightarrow> 'c) \<Rightarrow> fixture_env \<Rightarrow> gostring \<Rightarrow> ('c, 'w, gostring) prog" where
  "NewBucketNamed api jitter cancel nuke_fn e name = createBucket api jitter cancel nuke_fn (e_Client e) name"

definition gone :: "sdk_error option \<Rightarrow> bool" where
  "gone err \<longleftrightarrow> snd (StatusAndCode err) = ''NoSuchBucket''"

definition maxRetentionWait :: int where
  "maxRetentionWait = 60 * 1000000000"

definition later_of :: "int option \<Rightarrow> int option \<Rightarrow> int option" where
  "later_of old new = (case new of None \<Rightarrow> old | Some u \<Rightarrow>
     (case old of None \<Rightarrow> Some u | Some v \<Rightarrow> if v < u then Some u else Some v))"

definition retainUntil :: "'w s3api \<Rightarrow> s3_options \<Rightarrow> gostring \<Rightarrow> refusal \<Rightarrow>
    ('c, 'w) tenv \<Rightarrow> int option \<times> ('c, 'w) tenv" where
  "retainUntil api c bucket failed s =
     (if rfCode failed \<noteq> ''AccessDenied'' then (None, s)
      else call (apiRetention api c bucket (rfId failed)) s)"

fun retain_all :: "'w s3api \<Rightarrow> s3_options \<Rightarrow> gostring \<Rightarrow> refusal list \<Rightarrow> int option \<Rightarrow>
    ('c, 'w) tenv \<Rightarrow> int option \<times> ('c, 'w) tenv" where
  "retain_all api c bucket [] retain s = (retain, s)"
| "retain_all api c bucket (f # fs) retain s = (case retainUntil api c bucket f s of (u, s') \<Rightarrow>
     retain_all api c bucket fs (later_of retain u) s')"

definition delete_request :: "gostring \<Rightarrow> object_id list \<Rightarrow> bool \<Rightarrow> delete_input" where
  "delete_request bucket ids bypass =
     \<lparr>diBucket = bucket, diObjects = ids, diQuiet = True, diBypass = (if bypass then Some True else None)\<rparr>"

definition deleteBatch :: "'w s3api \<Rightarrow> s3_options \<Rightarrow> gostring \<Rightarrow> object_id list \<Rightarrow> bool \<Rightarrow>
    ('c, 'w) tenv \<Rightarrow> (sdk_error + refusal list) \<times> ('c, 'w) tenv" where
  "deleteBatch api c bucket ids bypass s = call (apiDeleteObjects api c (delete_request bucket ids bypass)) s"

definition identifiers :: "refusal list \<Rightarrow> object_id list" where
  "identifiers failed = map rfId failed"

text \<open>The deletions made for one page: at most two batches, the second for what was refused.\<close>

definition delete_ids :: "'w s3api \<Rightarrow> s3_options \<Rightarrow> gostring \<Rightarrow> object_id list \<Rightarrow> int option \<Rightarrow>
    ('c, 'w) tenv \<Rightarrow> (int option \<times> sdk_error option) \<times> ('c, 'w) tenv" where
  "delete_ids api c bucket ids retain s =
     (if ids = [] then ((retain, None), s)
      else (case deleteBatch api c bucket ids False s of
          (Inl err, s1) \<Rightarrow> ((retain, Some err), s1)
        | (Inr [], s1) \<Rightarrow> ((retain, None), s1)
        | (Inr refused, s1) \<Rightarrow>
            (case deleteBatch api c bucket (identifiers refused) True s1 of
               (Inl err, s2) \<Rightarrow> ((retain, Some err), s2)
             | (Inr refused', s2) \<Rightarrow>
                 (case retain_all api c bucket refused' retain s2 of (u, s3) \<Rightarrow> ((u, None), s3)))))"

definition delete_page :: "'w s3api \<Rightarrow> s3_options \<Rightarrow> gostring \<Rightarrow> version_page \<Rightarrow> int option \<Rightarrow>
    ('c, 'w) tenv \<Rightarrow> (int option \<times> sdk_error option) \<times> ('c, 'w) tenv" where
  "delete_page api c bucket page retain s =
     delete_ids api c bucket (pgVersions page @ pgMarkers page) retain s"

text \<open>The loop over the pages; it does not return when the server never ends its listing.\<close>

partial_function (option) deleteVersions :: "'w s3api \<Rightarrow> s3_options \<Rightarrow> gostring \<Rightarrow> marker option \<Rightarrow>
    int option \<Rightarrow> ('c, 'w) tenv \<Rightarrow> ((int option \<times> sdk_error option) \<times> ('c, 'w) tenv) option" where
  "deleteVersions api c bucket m retain s =
     (case call (apiListVersions api c bucket m) s of
        (Inl err, s1) \<Rightarrow> Some ((retain, Some err), s1)
      | (Inr page, s1) \<Rightarrow>
          (case delete_page api c bucket page retain s1 of
             ((u, Some err), s2) \<Rightarrow> Some ((u, Some err), s2)
           | ((u, None), s2) \<Rightarrow>
               if \<not> pgTruncated page then Some ((u, None), s2)
               else deleteVersions api c bucket (Some (pgNext page)) u s2))"

definition log_line :: "gostring \<Rightarrow> ('c, 'w) tenv \<Rightarrow> ('c, 'w) tenv" where
  "log_line msg s = snd (t_Logf msg s)"

text \<open>\<open>wait.Round(time.Second)\<close> of a positive wait.\<close>

definition round_second :: "int \<Rightarrow> int" where
  "round_second d = (let r = d mod 1000000000 in
     if r + r < 1000000000 then d - r else d + (1000000000 - r))"

text \<open>A plain error has no layer the SDK's accessors see.\<close>

definition plain_error :: sdk_error where
  "plain_error = []"

definition deleteObjects :: "'w s3api \<Rightarrow> s3_options \<Rightarrow> gostring \<Rightarrow>
    ('c, 'w) tenv \<Rightarrow> (sdk_error option \<times> ('c, 'w) tenv) option" where
  "deleteObjects api c bucket s = (case deleteVersions api c bucket None None s of
       None \<Rightarrow> None
     | Some ((u, Some err), s1) \<Rightarrow> Some (Some err, s1)
     | Some ((None, None), s1) \<Rightarrow> Some (None, s1)
     | Some ((Some until, None), s1) \<Rightarrow>
         (let wait = until - teClock s1 in
          if wait > maxRetentionWait then Some (Some plain_error, s1)
          else
            let s2 = (if wait > 0
                  then (log_line (''cleanup: waiting '' @ duration_string (round_second wait) @ '' for object locks in '' @ bucket @ '' to expire'') s1)
                         \<lparr>teClock := teClock s1 + wait\<rparr>
                  else s1)
            in map_option (\<lambda>((_, err), s3). (err, s3)) (deleteVersions api c bucket None None s2)))"

definition log_problem :: "'w s3api \<Rightarrow> gostring \<Rightarrow> gostring \<Rightarrow> sdk_error option \<Rightarrow>
    ('c, 'w) tenv \<Rightarrow> ('c, 'w) tenv" where
  "log_problem api what bucket err s = (case err of
       Some e \<Rightarrow> if gone err then s
                 else log_line (''cleanup: '' @ what @ '' bucket '' @ bucket @ '': '' @ apiErrText api e) s
     | None \<Rightarrow> s)"

definition nuke :: "'w s3api \<Rightarrow> (nat \<Rightarrow> int \<Rightarrow> int) \<Rightarrow> s3_options \<Rightarrow> gostring \<Rightarrow> ('c, 'w, unit) prog" where
  "nuke api jitter c bucket s =
     (case retryThrottled jitter None (deleteObjects api c bucket) s of
        None \<Rightarrow> (Hangs, s)
      | Some (err, s1) \<Rightarrow>
          (let s2 = log_problem api ''empty'' bucket err s1 in
           case retryThrottled jitter None (lift_act (apiDeleteBucket api c bucket)) s2 of
             None \<Rightarrow> (Hangs, s2)
           | Some (err', s3) \<Rightarrow> (Returned (), log_problem api ''delete'' bucket err' s3)))"

definition Nuke :: "'w s3api \<Rightarrow> (nat \<Rightarrow> int \<Rightarrow> int) \<Rightarrow> s3_options \<Rightarrow> gostring \<Rightarrow> ('c, 'w, unit) prog" where
  "Nuke api jitter c bucket = nuke api jitter c bucket"

section \<open>What fixture work does to the test\<close>

text \<open>Work is quiet when it only adds log lines to the handle.\<close>

definition quiet :: "'c handle \<Rightarrow> 'c handle \<Rightarrow> bool" where
  "quiet t t' \<longleftrightarrow> hName t' = hName t \<and> hFailed t' = hFailed t \<and> hSkipped t' = hSkipped t \<and> hSkipMsg t' = hSkipMsg t \<and>
     hCleanups t' = hCleanups t \<and> (\<exists>ls. hLogs t' = hLogs t @ ls)"

lemma quiet_refl [simp]: "quiet t t"
  by (simp add: quiet_def)

lemma quiet_trans: "quiet t u \<Longrightarrow> quiet u v \<Longrightarrow> quiet t v"
  by (auto simp: quiet_def)

lemma quiet_log [simp]: "quiet (teT s) (teT (log_line m s))"
  by (simp add: quiet_def log_line_def t_Logf_def)

lemma quiet_call [simp]: "quiet (teT s) (teT (snd (call a s)))"
  by simp

lemma call_cases: "call a s = (r, s') \<Longrightarrow> teT s' = teT s"
  by (metis teT_call snd_conv)

text \<open>
  Whatever every attempt and every sleep keep, the retries keep; what concerns the handle alone no sleep
  touches.
\<close>

locale retry_steps =
  fixes R :: "('c, 'w) tenv \<Rightarrow> ('c, 'w) tenv \<Rightarrow> bool" and fn :: "('c, 'w) tenv \<Rightarrow> (sdk_error option \<times> ('c, 'w) tenv) option"
  assumes trans: "R s t \<Longrightarrow> R t u \<Longrightarrow> R s u"
    and sleep: "R s (s\<lparr>teClock := now\<rparr>)"
    and attempt: "fn s = Some (err, s') \<Longrightarrow> R s s'"
begin

lemma loop: "retry_loop k jitter cancel deadline n delay fn s = Some (err, s') \<Longrightarrow> R s s'"
proof (induction k arbitrary: n delay s)
  case (Suc k)
  obtain err1 s1 where f: "fn s = Some (err1, s1)"
    using Suc.prems by (cases "fn s") (auto simp: retry_loop.simps)
  have k: "R s (s1\<lparr>teClock := now\<rparr>)" for now by (rule trans [OF attempt [OF f] sleep])
  show ?case
    using retry_loop_step [of fn s err1 s1 deadline k jitter cancel n delay, OF f]
  proof (elim disjE exE conjE)
    assume "retry_loop (Suc k) jitter cancel deadline n delay fn s =
      retry_loop k jitter cancel deadline (n + 1)
        (if delay < 4 * 1000000000 then delay * 2 else delay) fn
        (s1\<lparr>teClock := teClock s1 + (delay + jitter n delay)\<rparr>)"
    then have "R (s1\<lparr>teClock := teClock s1 + (delay + jitter n delay)\<rparr>) s'"
      using Suc.prems by (intro Suc.IH) simp
    then show ?thesis using trans [OF k] by blast
  qed (use Suc.prems k attempt [OF f] in auto)
qed simp

lemma retry: "retryThrottled jitter cancel fn s = Some (err, s') \<Longrightarrow> R s s'"
  unfolding retryThrottled_def by (rule loop)

end

locale retry_keeps =
  fixes R :: "'c handle \<Rightarrow> 'c handle \<Rightarrow> bool" and fn :: "('c, 'w) tenv \<Rightarrow> (sdk_error option \<times> ('c, 'w) tenv) option"
  assumes handle_refl: "R t t" and handle_trans: "R t u \<Longrightarrow> R u v \<Longrightarrow> R t v"
    and keeps: "fn s = Some (err, s') \<Longrightarrow> R (teT s) (teT s')"

sublocale retry_keeps \<subseteq> retry_steps "\<lambda>s s'. R (teT s) (teT s')" fn
  by unfold_locales (auto intro: handle_refl handle_trans keeps)

interpretation act_keeps: retry_keeps "(=)" "lift_act a" for a
  by unfold_locales (auto simp: lift_act_def dest: call_cases)

lemma createBucket_effect:
  assumes "createBucket api jitter cancel nuke_fn c name s = (x, s')"
  shows "(x = Returned name \<and> teT s' = (teT s)\<lparr>hCleanups := hCleanups (teT s) @ [nuke_fn c name]\<rparr>) \<or>
    (x = FailNow \<and> hFailed (teT s') \<and> hCleanups (teT s') = hCleanups (teT s)) \<or>
    (x = Hangs \<and> teT s' = teT s)"
proof (cases "retryThrottled jitter cancel (lift_act (apiCreateBucket api c name)) s")
  case None
  then show ?thesis using assms by (simp add: createBucket_def)
next
  case (Some r)
  obtain err s1 where r: "r = (err, s1)" by (cases r)
  have t: "teT s = teT s1" using act_keeps.retry Some r by metis
  show ?thesis
  proof (cases err)
    case None
    then show ?thesis using assms Some r t
      by (auto simp: createBucket_def p_then_def p_bind_def t_Cleanup_def p_return_def)
  next
    case (Some e)
    then show ?thesis using assms \<open>retryThrottled _ _ _ _ = Some r\<close> r t
      by (auto simp: createBucket_def t_Fatalf_def t_Errorf_def p_bind_def h_error_def)
  qed
qed

text \<open>
  A bucket that was created will be removed: \<open>createBucket\<close> either returns its name having registered
  exactly one cleanup, the removal of that bucket, or fails the test at once, with an error recorded
  and nothing registered.
\<close>

theorem createBucket_registers:
  assumes "createBucket api jitter cancel nuke_fn c name s = (x, s')"
  shows "(x = Returned name \<and> teT s' = (teT s)\<lparr>hCleanups := hCleanups (teT s) @ [nuke_fn c name]\<rparr>) \<or>
    (x = FailNow \<and> hFailed (teT s') \<and> hCleanups (teT s') = hCleanups (teT s)) \<or>
    (x = Hangs \<and> teT s' = teT s)"
  using assms by (rule createBucket_effect)

lemma retainUntil_handle: "retainUntil api c b f s = (u, s') \<Longrightarrow> teT s' = teT s"
  by (auto simp: retainUntil_def dest: call_cases split: if_splits)

lemma retain_all_handle: "retain_all api c b fs u s = (v, s') \<Longrightarrow> teT s' = teT s"
proof (induction fs arbitrary: u s)
  case (Cons f fs)
  obtain w s1 where r: "retainUntil api c b f s = (w, s1)" by (cases "retainUntil api c b f s")
  have "retain_all api c b fs (later_of u w) s1 = (v, s')" using Cons.prems r by simp
  then show ?case using Cons.IH retainUntil_handle [OF r] by metis
qed simp

lemma delete_ids_handle:
  assumes "delete_ids api c b ids u s = (r, s')"
  shows "teT s' = teT s"
proof (cases "ids = []")
  case True
  then show ?thesis using assms by (simp add: delete_ids_def)
next
  case False
  obtain r1 s1 where c1: "deleteBatch api c b (ids) False s = (r1, s1)"
    by (metis prod.exhaust)
  have t1: "teT s1 = teT s" by (rule call_cases [OF c1 [unfolded deleteBatch_def]])
  consider err where "r1 = Inl err" | "r1 = Inr []" | f fs where "r1 = Inr (f # fs)"
    by (cases r1; metis list.exhaust)
  then show ?thesis
  proof cases
    case 3
    obtain r2 s2 where c2: "deleteBatch api c b (identifiers (f # fs)) True s1 = (r2, s2)"
      by (metis prod.exhaust)
    have t2: "teT s2 = teT s" using call_cases [OF c2 [unfolded deleteBatch_def]] t1 by simp
    show ?thesis
    proof (cases r2)
      case (Inl err)
      then show ?thesis using assms False c1 c2 3 t2 by (simp add: delete_ids_def Let_def)
    next
      case (Inr refused)
      obtain v s3 where ra: "retain_all api c b refused u s2 = (v, s3)" by (metis prod.exhaust)
      then have "s' = s3" using assms False c1 c2 3 Inr by (simp add: delete_ids_def Let_def)
      then show ?thesis using retain_all_handle [OF ra] t2 by simp
    qed
  qed (use assms False c1 t1 in \<open>simp_all add: delete_ids_def Let_def\<close>)
qed

lemma delete_page_handle: "delete_page api c b page u s = (r, s') \<Longrightarrow> teT s' = teT s"
  unfolding delete_page_def by (rule delete_ids_handle)

lemma deleteVersions_rel:
  fixes R :: "('c, 'w) tenv \<Rightarrow> ('c, 'w) tenv \<Rightarrow> bool"
  assumes trans: "\<And>s t u. R s t \<Longrightarrow> R t u \<Longrightarrow> R s u"
    and list: "\<And>m s r s'. call (apiListVersions api c b m) s = (r, s') \<Longrightarrow> R s s'"
    and page: "\<And>p u s r s'. delete_page api c b p u s = (r, s') \<Longrightarrow> R s s'"
    and res: "deleteVersions api c b m u s = Some y"
  shows "R s (snd y)"
proof -
  let ?P = "\<lambda>api' c' b' m u s y. api' = api \<longrightarrow> c' = c \<longrightarrow> b' = b \<longrightarrow> R s (snd y)"
  have "?P api c b m u s y"
  proof (rule deleteVersions.raw_induct [where P = ?P, OF _ res], intro impI)
    fix dv api' c' b' m u s y
    assume IH: "\<And>api' c' b' m u s y. dv api' c' b' m u s = Some y \<Longrightarrow> ?P api' c' b' m u s y"
      and eq: "api' = api" "c' = c" "b' = b"
      and body: "(case call (apiListVersions api' c' b' m) s of
        (Inl err, s1) \<Rightarrow> Some ((u, Some err), s1)
      | (Inr page, s1) \<Rightarrow>
          (case delete_page api' c' b' page u s1 of
             ((u, Some err), s2) \<Rightarrow> Some ((u, Some err), s2)
           | ((u, None), s2) \<Rightarrow>
               if \<not> pgTruncated page then Some ((u, None), s2)
               else dv api' c' b' (Some (pgNext page)) u s2)) = Some y"
    obtain l s1 where l: "call (apiListVersions api c b m) s = (l, s1)" by (metis prod.exhaust)
    have r1: "R s s1" by (rule list [OF l])
    show "R s (snd y)"
    proof (cases l)
      case (Inl err)
      then have "y = ((u, Some err), s1)" using body eq l by simp
      then show ?thesis using r1 by simp
    next
      case (Inr pg)
      obtain v e s2 where d: "delete_page api c b pg u s1 = ((v, e), s2)" by (metis prod.exhaust)
      have r2: "R s s2" using trans [OF r1 page [OF d]] .
      show ?thesis
      proof (cases "e = None \<and> pgTruncated pg")
        case False
        then have "snd y = s2" using body eq l Inr d by (cases e) auto
        then show ?thesis using r2 by simp
      next
        case True
        then have "dv api c b (Some (pgNext pg)) v s2 = Some y" using body eq l Inr d by simp
        then have "R s2 (snd y)" using IH by blast
        then show ?thesis using trans [OF r2] by blast
      qed
    qed
  qed
  then show ?thesis by blast
qed

lemma deleteVersions_handle: "deleteVersions api c b m u s = Some (r, s') \<Longrightarrow> teT s' = teT s"
proof -
  assume "deleteVersions api c b m u s = Some (r, s')"
  from deleteVersions_rel [where R = "\<lambda>s s'. teT s' = teT s", OF _ call_cases delete_page_handle this]
  show ?thesis by simp
qed

text \<open>The two passes: what is between them is a log line and a sleep.\<close>

lemma deleteObjects_cases:
  assumes "deleteObjects api c b s = Some (err, s')"
  obtains r s1 where "deleteVersions api c b None None s = Some (r, s1)" and "s' = s1"
  | r s1 s2 w where "deleteVersions api c b None None s = Some (r, s1)"
      and "quiet (teT s1) (teT s2)" and "teWorld s2 = teWorld s1" and "deleteVersions api c b None None s2 = Some (w, s')"
proof -
  obtain u e s1 where r: "deleteVersions api c b None None s = Some ((u, e), s1)"
    using assms by (cases "deleteVersions api c b None None s") (auto simp: deleteObjects_def)
  show thesis
  proof (cases "e = None \<and> u \<noteq> None")
    case False
    then show ?thesis using assms r that(1) by (cases e; cases u) (auto simp: deleteObjects_def)
  next
    case True
    then obtain until where u: "u = Some until" and e: "e = None" by auto
    let ?m = "''cleanup: waiting '' @ duration_string (round_second (until - teClock s1)) @ '' for object locks in '' @ b @ '' to expire''"
    let ?s2 = "if until - teClock s1 > 0 then (log_line ?m s1)\<lparr>teClock := teClock s1 + (until - teClock s1)\<rparr> else s1"
    have q: "quiet (teT s1) (teT ?s2)" using quiet_log [of s1 ?m] by simp
    have w: "teWorld ?s2 = teWorld s1" by (simp add: log_line_def t_Logf_def del: append.simps)
    consider "s' = s1" | v where "deleteVersions api c b None None ?s2 = Some (v, s')"
      using assms r u e unfolding deleteObjects_def Let_def
      by (auto split: if_splits simp del: append.simps)
    then show ?thesis
      using that(1) [OF r] that(2) [OF r q w] by cases blast+
  qed
qed

lemma quiet_deleteObjects:
  assumes "deleteObjects api c b s = Some (err, s')"
  shows "quiet (teT s) (teT s')"
  using assms
proof (cases rule: deleteObjects_cases)
  case (1 r s1)
  then show ?thesis using deleteVersions_handle by (metis quiet_refl)
next
  case (2 r s1 s2 w)
  then show ?thesis using deleteVersions_handle by metis
qed

interpretation delete_keeps: retry_keeps quiet "deleteObjects api c b" for api c b
  by unfold_locales (auto intro: quiet_trans quiet_deleteObjects)

lemma quiet_log_problem [simp]: "quiet (teT s) (teT (log_problem api w b err s))"
  by (simp add: log_problem_def split: option.splits)

lemma nuke_effect:
  assumes "nuke api jitter c bucket s = (x, s')"
  shows "x \<in> {Returned (), Hangs} \<and> quiet (teT s) (teT s')"
proof (cases "retryThrottled jitter None (deleteObjects api c bucket) s")
  case None
  then show ?thesis using assms by (auto simp: nuke_def)
next
  case (Some r)
  obtain err s1 where r: "r = (err, s1)" by (cases r)
  let ?s2 = "log_problem api ''empty'' bucket err s1"
  have q: "quiet (teT s) (teT ?s2)"
    using quiet_trans [OF delete_keeps.retry quiet_log_problem] Some r by blast
  show ?thesis
  proof (cases "retryThrottled jitter None (lift_act (apiDeleteBucket api c bucket)) ?s2")
    case None
    then show ?thesis using assms Some r q by (auto simp: nuke_def Let_def)
  next
    case (Some r')
    obtain err' s3 where r': "r' = (err', s3)" by (cases r')
    have "teT ?s2 = teT s3" using act_keeps.retry Some r' by blast
    then have "quiet (teT s) (teT (log_problem api ''delete'' bucket err' s3))"
      using quiet_trans [OF q] quiet_log_problem by metis
    then show ?thesis using assms Some r' \<open>retryThrottled jitter None (deleteObjects api c bucket) s = Some r\<close> r
      by (auto simp: nuke_def Let_def)
  qed
qed

text \<open>
  Teardown never decides a verdict: removing a bucket returns normally or never returns, and all it
  does to the test is to add log lines; it neither fails nor skips it and registers nothing.
\<close>

theorem nuke_quiet:
  assumes "nuke api jitter c bucket s = (x, s')"
  shows "x \<in> {Returned (), Hangs} \<and> quiet (teT s) (teT s')"
  using assms by (rule nuke_effect)

section \<open>Teardown ends\<close>

definition forward :: "('w, 'a) act \<Rightarrow> bool" where
  "forward a \<longleftrightarrow> (\<forall>now w. now \<le> fst (snd (a (now, w))))"

definition api_forward :: "'w s3api \<Rightarrow> s3_options \<Rightarrow> gostring \<Rightarrow> bool" where
  "api_forward api c b \<longleftrightarrow> forward (apiDeleteBucket api c b) \<and> (\<forall>m. forward (apiListVersions api c b m)) \<and>
     (\<forall>ids byp. forward (apiDeleteObjects api c (delete_request b ids byp))) \<and> (\<forall>i. forward (apiRetention api c b i))"

text \<open>The server's listing ends: the marker of a truncated page moves down a well-founded rank.\<close>

definition listing_ends :: "'w s3api \<Rightarrow> s3_options \<Rightarrow> gostring \<Rightarrow> bool" where
  "listing_ends api c b \<longleftrightarrow> (\<exists>rank :: marker option \<Rightarrow> nat. \<forall>m x page y.
     apiListVersions api c b m x = (Inr page, y) \<and> pgTruncated page \<longrightarrow> rank (Some (pgNext page)) < rank m)"

lemma forward_call: "forward a \<Longrightarrow> call a s = (r, s') \<Longrightarrow> teClock s \<le> teClock s'"
  by (auto simp: forward_def call_def split: prod.splits) (metis fst_conv snd_conv)

lemma forward_retain_all:
  assumes "\<And>i. forward (apiRetention api c b i)"
  shows "retain_all api c b fs u s = (v, s') \<Longrightarrow> teClock s \<le> teClock s'"
proof (induction fs arbitrary: u s)
  case (Cons f fs)
  obtain w s1 where r: "retainUntil api c b f s = (w, s1)" by (metis prod.exhaust)
  have "teClock s \<le> teClock s1"
    using r forward_call [OF assms] by (auto simp: retainUntil_def split: if_splits)
  moreover have "teClock s1 \<le> teClock s'" using Cons r by simp
  ultimately show ?case by linarith
qed simp

lemma forward_delete_page:
  assumes "api_forward api c b" and "delete_page api c b page u s = (r, s')"
  shows "teClock s \<le> teClock s'"
proof -
  let ?ids = "pgVersions page @ pgMarkers page"
  have fd: "forward (apiDeleteObjects api c (delete_request b ids byp))" for ids byp
    using assms(1) by (simp add: api_forward_def)
  have fr: "forward (apiRetention api c b i)" for i using assms(1) by (simp add: api_forward_def)
  have main: "teClock s \<le> teClock s'" if "delete_ids api c b ids u s = (r, s')" for ids
  proof (cases "ids = []")
    case True
    then show ?thesis using that by (simp add: delete_ids_def)
  next
    case False
    obtain r1 s1 where c1: "deleteBatch api c b ids False s = (r1, s1)" by (metis prod.exhaust)
    have t1: "teClock s \<le> teClock s1" by (rule forward_call [OF fd c1 [unfolded deleteBatch_def]])
    consider err where "r1 = Inl err" | "r1 = Inr []" | f fs where "r1 = Inr (f # fs)"
      by (cases r1; metis list.exhaust)
    then show ?thesis
    proof cases
      case 3
      obtain r2 s2 where c2: "deleteBatch api c b (identifiers (f # fs)) True s1 = (r2, s2)"
        by (metis prod.exhaust)
      have t2: "teClock s1 \<le> teClock s2" by (rule forward_call [OF fd c2 [unfolded deleteBatch_def]])
      show ?thesis
      proof (cases r2)
        case (Inl err)
        then show ?thesis using that False c1 c2 3 t1 t2 by (simp add: delete_ids_def)
      next
        case (Inr refused)
        obtain v s3 where ra: "retain_all api c b refused u s2 = (v, s3)" by (metis prod.exhaust)
        then have "s' = s3" using that False c1 c2 3 Inr by (simp add: delete_ids_def)
        then show ?thesis using forward_retain_all [OF fr ra] t1 t2 by simp
      qed
    qed (use that False c1 t1 in \<open>simp_all add: delete_ids_def\<close>)
  qed
  show ?thesis using assms(2) main unfolding delete_page_def by blast
qed

lemma forward_deleteVersions:
  assumes "api_forward api c b" and "deleteVersions api c b m u s = Some y"
  shows "teClock s \<le> teClock (snd y)"
proof (rule deleteVersions_rel [where R = "\<lambda>s s'. teClock s \<le> teClock s'", OF _ _ _ assms(2)])
  show "teClock s \<le> teClock s'" if "call (apiListVersions api c b m) s = (r, s')" for m s r s'
    using forward_call [OF _ that] assms(1) by (simp add: api_forward_def)
qed (use forward_delete_page [OF assms(1)] in auto)

lemma deleteVersions_returns:
  assumes "listing_ends api c b"
  shows "\<exists>y. deleteVersions api c b m u s = Some y"
proof -
  obtain rank :: "marker option \<Rightarrow> nat" where rank: "\<And>m x page y.
     apiListVersions api c b m x = (Inr page, y) \<Longrightarrow> pgTruncated page \<Longrightarrow> rank (Some (pgNext page)) < rank m"
    using assms unfolding listing_ends_def by blast
  show ?thesis
  proof (induction "rank m" arbitrary: m u s rule: less_induct)
    case less
    obtain l s1 where l: "call (apiListVersions api c b m) s = (l, s1)" by (metis prod.exhaust)
    show ?case
    proof (cases l)
      case (Inl err)
      then show ?thesis using l by (subst deleteVersions.simps) simp
    next
      case (Inr pg)
      obtain v e s2 where d: "delete_page api c b pg u s1 = ((v, e), s2)" by (metis prod.exhaust)
      show ?thesis
      proof (cases "e = None \<and> pgTruncated pg")
        case False
        then show ?thesis using l Inr d by (subst deleteVersions.simps) (cases e; auto)
      next
        case True
        have "rank (Some (pgNext pg)) < rank m"
          using rank [of m "(teClock s, teWorld s)"] l Inr True by (auto simp: call_def split: prod.splits)
        then obtain y where "deleteVersions api c b (Some (pgNext pg)) v s2 = Some y"
          using less.hyps by blast
        then show ?thesis using l Inr d True by (subst deleteVersions.simps) simp
      qed
    qed
  qed
qed

lemma timely_lift: "forward a \<Longrightarrow> timely (lift_act a)"
  unfolding timely_def lift_act_def by (metis forward_call prod.exhaust)

lemma timely_deleteObjects:
  assumes "api_forward api c b" and "listing_ends api c b"
  shows "timely (deleteObjects api c b)"
  unfolding timely_def
proof
  fix s
  obtain u e s1 where r: "deleteVersions api c b None None s = Some ((u, e), s1)"
    using deleteVersions_returns [OF assms(2), of None None s] by (metis prod.exhaust)
  have t1: "teClock s \<le> teClock s1" using forward_deleteVersions [OF assms(1) r] by simp
  show "\<exists>err s'. deleteObjects api c b s = Some (err, s') \<and> teClock s \<le> teClock s'"
  proof (cases "e = None \<and> u \<noteq> None")
    case False
    then show ?thesis using r t1 by (cases e; cases u) (auto simp: deleteObjects_def)
  next
    case True
    then obtain until where u: "u = Some until" and e: "e = None" by auto
    let ?m = "''cleanup: waiting '' @ duration_string (round_second (until - teClock s1)) @ '' for object locks in '' @ b @ '' to expire''"
    let ?s2 = "if until - teClock s1 > 0 then (log_line ?m s1)\<lparr>teClock := teClock s1 + (until - teClock s1)\<rparr> else s1"
    obtain w s3 where r2: "deleteVersions api c b None None ?s2 = Some (w, s3)"
      using deleteVersions_returns [OF assms(2), of None None ?s2] by (metis prod.exhaust)
    have "teClock s1 \<le> teClock ?s2" by simp
    then have "teClock s \<le> teClock s3" using t1 forward_deleteVersions [OF assms(1) r2] by simp
    then show ?thesis using r u e r2 t1 unfolding deleteObjects_def Let_def
      by (cases w) (simp del: append.simps split: if_splits)
  qed
qed

lemma nuke_total:
  assumes "api_forward api c bucket" and "listing_ends api c bucket" and "\<And>a d. 0 \<le> jitter a d"
  shows "fst (nuke api jitter c bucket s) = Returned ()"
proof -
  obtain err s1 where r1: "retryThrottled jitter None (deleteObjects api c bucket) s = Some (err, s1)"
    using retry_returns [of _ jitter, OF timely_deleteObjects [OF assms(1,2)] assms(3)] by blast
  let ?s2 = "log_problem api ''empty'' bucket err s1"
  have "forward (apiDeleteBucket api c bucket)" using assms(1) by (simp add: api_forward_def)
  then obtain err' s3 where r2: "retryThrottled jitter None (lift_act (apiDeleteBucket api c bucket)) ?s2 = Some (err', s3)"
    using retry_returns [of _ jitter, OF timely_lift assms(3)] by blast
  show ?thesis using r1 r2 by (simp add: nuke_def Let_def)
qed

text \<open>
  C35. Teardown ends: when the server answers every call and its version listing ends, removing a bucket
  returns, however often the server throttles and whatever retention it reports.
\<close>

theorem nuke_returns:
  assumes "api_forward api c bucket" and "listing_ends api c bucket" and "\<And>a d. 0 \<le> jitter a d"
  shows "fst (nuke api jitter c bucket s) = Returned ()"
  using assms by (rule nuke_total)

section \<open>A server of one page\<close>

text \<open>A server whose world counts the requests it got; it lists one version, then nothing.\<close>

definition example_api :: "nat s3api" where
  "example_api = \<lparr>apiCreateBucket = (\<lambda>c b (now, w). (None, now + 1, w + 1)),
     apiDeleteBucket = (\<lambda>c b (now, w). (None, now + 1, w + 1)),
     apiListVersions = (\<lambda>c b m (now, w). (Inr \<lparr>pgVersions = [\<lparr>oidKey = ''k'', oidVersion = ''null''\<rparr>],
        pgMarkers = [], pgTruncated = False, pgNext = ([], [])\<rparr>, now + 1, w + 1)),
     apiDeleteObjects = (\<lambda>c i (now, w). (Inr [], now + 1, w + 1)),
     apiRetention = (\<lambda>c b i (now, w). (None, now + 1, w + 1)),
     apiErrText = (\<lambda>e. ''error'')\<rparr>"

definition example_state :: "(nat, nat) tenv" where
  "example_state = \<lparr>teT = newT ''t'', teClock = 0, teWorld = 0\<rparr>"

lemma example_api_ok: "api_forward example_api c b" "listing_ends example_api c b"
  by (auto simp: api_forward_def forward_def listing_ends_def example_api_def)

theorem createBucket_registers_witness:
  "\<exists>s'. createBucket example_api (\<lambda>_ _. 0) None (\<lambda>c b. 7) (MainClient (NewFactory example_cfg)) ''b'' example_state =
     (Returned ''b'', s') \<and> hCleanups (teT s') = [7]"
proof -
  let ?run = "createBucket example_api (\<lambda>_ _. 0) None (\<lambda>c b. 7) (MainClient (NewFactory example_cfg)) ''b'' example_state"
  obtain x s' where r: "?run = (x, s')" by (metis prod.exhaust)
  have "fst ?run = Returned ''b''"
    by (simp add: createBucket_def retryThrottled_def retry_fuel_def eval_nat_numeral retry_loop.simps
        lift_act_def call_def example_api_def example_state_def p_then_def p_bind_def t_Cleanup_def p_return_def)
  then have "x = Returned ''b''" using r by simp
  then show ?thesis using createBucket_registers [OF r] r by (auto simp: example_state_def newT_def)
qed

theorem nuke_returns_witness:
  "fst (nuke example_api (\<lambda>_ _. 0) (MainClient (NewFactory example_cfg)) ''b'' example_state) = Returned ()"
  by (rule nuke_returns [OF example_api_ok]) simp

theorem nuke_quiet_witness:
  "\<exists>x s'. nuke example_api (\<lambda>_ _. 0) (MainClient (NewFactory example_cfg)) ''b'' example_state = (x, s') \<and>
     quiet (teT example_state) (teT s')"
proof -
  obtain x s' where r: "nuke example_api (\<lambda>_ _. 0) (MainClient (NewFactory example_cfg)) ''b'' example_state = (x, s')"
    by (metis prod.exhaust)
  with nuke_quiet [OF r] show ?thesis by blast
qed

end
