(* ===== verification/Teardown.thy ===== *)
theory Teardown
  imports Fixture
begin

text \<open>
  What becomes of the buckets a test creates, from their creation through the rest of the test to the
  end of its cleanups: \<open>createBucket\<close> and \<open>nuke\<close> of \<open>internal/fixture\<close> together with \<open>Cleanup\<close> and
  \<open>runCleanups\<close> of \<open>internal/harness/t.go\<close>.
\<close>

section \<open>What is asked of the server\<close>

text \<open>
  \<open>lives b w\<close> says that bucket \<open>b\<close> exists. \<open>DeleteBucket\<close> that succeeds, or answers \<open>NoSuchBucket\<close>,
  leaves no bucket; no call of a teardown creates one.
\<close>

definition delete_tells :: "'w s3api \<Rightarrow> (gostring \<Rightarrow> 'w \<Rightarrow> bool) \<Rightarrow> s3_options \<Rightarrow> gostring \<Rightarrow> bool" where
  "delete_tells api lives c b \<longleftrightarrow> (\<forall>x err now w. apiDeleteBucket api c b x = (err, now, w) \<longrightarrow>
     err = None \<or> gone err \<longrightarrow> \<not> lives b w)"

definition stays_absent :: "(gostring \<Rightarrow> 'w \<Rightarrow> bool) \<Rightarrow> gostring \<Rightarrow> ('w, 'a) act \<Rightarrow> bool" where
  "stays_absent lives b a \<longleftrightarrow> (\<forall>x. \<not> lives b (snd x) \<longrightarrow> \<not> lives b (snd (snd (a x))))"

definition creates_nothing :: "'w s3api \<Rightarrow> (gostring \<Rightarrow> 'w \<Rightarrow> bool) \<Rightarrow> gostring \<Rightarrow> bool" where
  "creates_nothing api lives b \<longleftrightarrow> (\<forall>c b'. stays_absent lives b (apiDeleteBucket api c b') \<and>
     (\<forall>m. stays_absent lives b (apiListVersions api c b' m)) \<and>
     (\<forall>i. stays_absent lives b (apiDeleteObjects api c i)) \<and>
     (\<forall>i. stays_absent lives b (apiRetention api c b' i)))"

section \<open>A bucket that is gone stays gone\<close>

definition still_absent :: "(gostring \<Rightarrow> 'w \<Rightarrow> bool) \<Rightarrow> gostring \<Rightarrow> ('c, 'w) tenv \<Rightarrow> ('c, 'w) tenv \<Rightarrow> bool" where
  "still_absent lives b s s' \<longleftrightarrow> (\<not> lives b (teWorld s) \<longrightarrow> \<not> lives b (teWorld s'))"

lemma still_absent_trans: "still_absent p b s t \<Longrightarrow> still_absent p b t u \<Longrightarrow> still_absent p b s u"
  by (simp add: still_absent_def)

lemma still_absent_world: "teWorld s' = teWorld s \<Longrightarrow> still_absent p b s s'"
  by (simp add: still_absent_def)

lemma still_absent_call:
  assumes "stays_absent p b a" and "call a s = (r, s')"
  shows "still_absent p b s s'"
proof -
  obtain now w where a: "a (teClock s, teWorld s) = (r, now, w)" and s': "s' = s\<lparr>teClock := now, teWorld := w\<rparr>"
    using assms(2) by (auto simp: call_def split: prod.splits)
  have "\<not> p b (teWorld s) \<longrightarrow> \<not> p b (snd (snd (a (teClock s, teWorld s))))"
    using assms(1) by (simp add: stays_absent_def)
  then show ?thesis by (simp add: still_absent_def a s')
qed

lemma still_absent_calls:
  assumes "creates_nothing api p b"
  shows "call (apiDeleteBucket api c b') s = (r1, s') \<Longrightarrow> still_absent p b s s'"
    and "call (apiListVersions api c b' m) s = (r2, s') \<Longrightarrow> still_absent p b s s'"
    and "call (apiDeleteObjects api c i) s = (r3, s') \<Longrightarrow> still_absent p b s s'"
    and "call (apiRetention api c b' j) s = (r4, s') \<Longrightarrow> still_absent p b s s'"
  using assms still_absent_call [of p b, where s = s and s' = s'] unfolding creates_nothing_def by metis+

lemma still_absent_retain_all:
  assumes "creates_nothing api p b"
  shows "retain_all api c b' fs u s = (v, s') \<Longrightarrow> still_absent p b s s'"
proof (induction fs arbitrary: u s)
  case (Cons f fs)
  obtain w s1 where r: "retainUntil api c b' f s = (w, s1)" by (metis prod.exhaust)
  have "still_absent p b s s1"
    using r still_absent_calls(4) [OF assms] by (auto simp: retainUntil_def still_absent_world split: if_splits)
  moreover have "still_absent p b s1 s'" using Cons r by simp
  ultimately show ?case by (rule still_absent_trans)
qed (simp add: still_absent_world)

lemma still_absent_batch:
  "creates_nothing api p b \<Longrightarrow> deleteBatch api c b' ids byp s = (r, s') \<Longrightarrow> still_absent p b s s'"
  unfolding deleteBatch_def by (rule still_absent_calls(3))

lemma still_absent_delete_page:
  assumes none: "creates_nothing api p b" and page: "delete_page api c b' page u s = (r, s')"
  shows "still_absent p b s s'"
  using page
  by (auto simp: delete_page_def delete_ids_def still_absent_world split: prod.splits sum.splits list.splits if_splits
      dest!: still_absent_batch [OF none] still_absent_retain_all [OF none] intro: still_absent_trans)

lemma still_absent_deleteVersions:
  assumes none: "creates_nothing api p b" and "deleteVersions api c b' m u s = Some y"
  shows "still_absent p b s (snd y)"
  by (rule deleteVersions_rel [where R = "still_absent p b", OF still_absent_trans
      still_absent_calls(2) [OF none] still_absent_delete_page [OF none] assms(2)])

lemma still_absent_deleteObjects:
  assumes none: "creates_nothing api p b" and del: "deleteObjects api c b' s = Some (err, s')"
  shows "still_absent p b s s'"
  using del
proof (cases rule: deleteObjects_cases)
  case (1 r s1)
  then show ?thesis using still_absent_deleteVersions [OF none] by fastforce
next
  case (2 r s1 s2 w)
  have "still_absent p b s s1" "still_absent p b s2 s'"
    using still_absent_deleteVersions [OF none 2(1)] still_absent_deleteVersions [OF none 2(4)] by simp_all
  then show ?thesis using 2(3) by (simp add: still_absent_def)
qed

lemma still_absent_retry:
  assumes "\<And>s err s'. fn s = Some (err, s') \<Longrightarrow> still_absent p b s s'"
    and "retryThrottled jitter cancel fn s = Some (err, s')"
  shows "still_absent p b s s'"
proof -
  have "retry_steps (still_absent p b) fn"
    by unfold_locales (auto intro: still_absent_trans assms(1) still_absent_world)
  then show ?thesis using assms(2) by (rule retry_steps.retry)
qed

lemma still_absent_log: "still_absent p b s (log_problem api what b' err s)"
  by (simp add: log_problem_def log_line_def t_Logf_def still_absent_world split: option.split)

section \<open>Teardown removes the bucket or says why not\<close>

definition reported :: "'w s3api \<Rightarrow> gostring \<Rightarrow> ('c, 'w) tenv \<Rightarrow> bool" where
  "reported api b s \<longleftrightarrow>
     (\<exists>e. ''cleanup: delete bucket '' @ b @ '': '' @ apiErrText api e \<in> set (hLogs (teT s)))"

definition accounted :: "'w s3api \<Rightarrow> (gostring \<Rightarrow> 'w \<Rightarrow> bool) \<Rightarrow> gostring \<Rightarrow> ('c, 'w) tenv \<Rightarrow> bool" where
  "accounted api lives b s \<longleftrightarrow> \<not> lives b (teWorld s) \<or> reported api b s"

lemma accounted_step: "extends s s' \<Longrightarrow> still_absent p b s s' \<Longrightarrow> accounted api p b s \<Longrightarrow> accounted api p b s'"
  by (auto simp: accounted_def reported_def extends_def still_absent_def)

lemma nuke_steps:
  assumes "creates_nothing api p b" and "nuke api jitter c b' s = (x, s')"
  shows "extends s s' \<and> still_absent p b s s'"
proof
  show "extends s s'" using nuke_effect [OF assms(2)] by (simp add: quiet_def extends_def)
next
  have empty: "still_absent p b t t'" if "retryThrottled jitter None (deleteObjects api c b') t = Some (err, t')" for t err t'
    by (rule still_absent_retry [OF still_absent_deleteObjects [OF assms(1)] that])
  have del: "still_absent p b t t'"
    if "retryThrottled jitter None (lift_act (apiDeleteBucket api c b')) t = Some (err, t')" for t err t'
    by (rule still_absent_retry [OF _ that]) (auto simp: lift_act_def intro: still_absent_calls(1) [OF assms(1)])
  have log: "still_absent p b t (log_problem api what b' err t')" if "still_absent p b t t'" for what err t t'
    by (rule still_absent_trans [OF that still_absent_log])
  show "still_absent p b s s'"
    using assms(2)
    by (auto simp: nuke_def Let_def still_absent_world split: option.splits
        dest!: empty del intro!: log elim: still_absent_trans [OF log, rotated])
qed

lemma nuke_accounts:
  fixes s :: "('c, 'w) tenv"
  assumes tells: "delete_tells api p c b" and run: "nuke api jitter c b s = (Returned (), s')"
  shows "accounted api p b s'"
proof -
  obtain s2 s3 :: "('c, 'w) tenv" and err where del: "retryThrottled jitter None (lift_act (apiDeleteBucket api c b)) s2 = Some (err, s3)"
      and s': "s' = log_problem api ''delete'' b err s3"
    using run by (auto simp: nuke_def Let_def split: option.splits)
  from retry_loop_result [OF del [unfolded retryThrottled_def]] obtain s0 t :: "('c, 'w) tenv" where
    t: "lift_act (apiDeleteBucket api c b) s0 = Some (err, t)" "teWorld s3 = teWorld t" by blast
  have tells': "\<not> p b (teWorld t)" if "err = None \<or> gone err"
    using t(1) that tells by (force simp: lift_act_def call_def delete_tells_def split: prod.splits)
  show ?thesis
  proof (cases "err = None \<or> gone err")
    case True
    then have "teWorld s' = teWorld s3" using s' by (auto simp: log_problem_def split: option.split)
    then show ?thesis using tells' [OF True] t(2) by (simp add: accounted_def)
  next
    case False
    then obtain e where "err = Some e" "\<not> gone err" by auto
    then have "reported api b s'" using s' by (auto simp: log_problem_def log_line_def t_Logf_def reported_def)
    then show ?thesis by (simp add: accounted_def)
  qed
qed

text \<open>A program that takes back no log line and does not bring the bucket back.\<close>

definition harmless :: "(gostring \<Rightarrow> 'w \<Rightarrow> bool) \<Rightarrow> gostring \<Rightarrow> ('c, 'w, unit) prog \<Rightarrow> bool" where
  "harmless lives b m \<longleftrightarrow> (\<forall>s. extends s (snd (m s)) \<and> still_absent lives b s (snd (m s)))"

lemma harmless_nuke: "creates_nothing api p b \<Longrightarrow> harmless p b (nuke api jitter c b')"
  unfolding harmless_def by (metis nuke_steps prod.collapse)

lemma run_cleanup_steps:
  assumes "run_cleanup exec k s = (x, s')"
  obtains "s' = snd (exec k s)" | m where "s' = update_handle (h_error m) (snd (exec k s))"
  using assms by (auto simp: run_cleanup_def split: prod.splits exit.splits)

lemma accounted_run_cleanup:
  assumes "run_cleanup exec k s = (x, s')" and "accounted api p b (snd (exec k s))"
  shows "accounted api p b s'"
  using assms(1)
proof (cases rule: run_cleanup_steps)
  case (2 m)
  then show ?thesis
    using accounted_step [OF extends_error still_absent_world assms(2)] by simp
qed (use assms(2) in simp)

lemma accounted_cleanups:
  assumes "\<And>k. harmless p b (exec k)" and "\<And>s s'. exec key s = (Returned (), s') \<Longrightarrow> accounted api p b s'"
    and "\<And>s. fst (exec key s) \<in> {Returned (), Hangs}"
  shows "cleanup_loop exec fns s = (Returned (), s') \<Longrightarrow> accounted api p b s \<or> key \<in> set fns \<Longrightarrow> accounted api p b s'"
proof (induction fns arbitrary: s)
  case (Cons k fns)
  obtain x s1 where r: "run_cleanup exec k s = (x, s1)" by (metis prod.exhaust)
  have x: "x = Returned ()" and rest: "cleanup_loop exec fns s1 = (Returned (), s')"
    using Cons.prems(1) r by (auto simp: p_then_def p_bind_def split: exit.splits)
  have "accounted api p b (snd (exec k s))" if "accounted api p b s \<or> key = k"
  proof (cases "accounted api p b s")
    case True
    then show ?thesis using accounted_step assms(1) unfolding harmless_def by blast
  next
    case False
    then have k: "key = k" using that by simp
    have "fst (exec key s) \<noteq> Hangs"
      using r x k run_cleanup_ends [of exec k s] by (auto split: if_splits)
    then have "exec key s = (Returned (), snd (exec key s))" using assms(3) [of s] by (simp add: prod_eq_iff)
    then show ?thesis using assms(2) k by metis
  qed
  then have "accounted api p b s1 \<or> key \<in> set fns"
    using Cons.prems(2) accounted_run_cleanup [OF r] by auto
  then show ?case using Cons.IH [OF rest] by blast
qed (simp add: p_return_def)

text \<open>
  C7. No bucket leaks silently: once a test's cleanups have run, a bucket it created through the fixture
  no longer exists, or the test's log has the line that says why it could not be deleted; whatever
  the test did in between as long as its registrations stand, whatever panics among its other
  cleanups, however often the server throttles.
\<close>

theorem no_silent_leak:
  assumes "delete_tells api lives c b" and "creates_nothing api lives b"
    and "exec (nuke_fn c b) = nuke api jitter c b"
    and "\<And>k. k \<noteq> nuke_fn c b \<Longrightarrow> harmless lives b (exec k)"
    and "createBucket api jitter' cancel nuke_fn c b s0 = (Returned b, s1)"
    and "set (hCleanups (teT s1)) \<subseteq> set (hCleanups (teT s))"
    and "t_runCleanups exec s = (Returned (), s')"
  shows "\<not> lives b (teWorld s') \<or>
    (\<exists>e. ''cleanup: delete bucket '' @ b @ '': '' @ apiErrText api e \<in> set (hLogs (teT s')))"
proof -
  have "nuke_fn c b \<in> set (hCleanups (teT s))"
    using createBucket_effect [OF assms(5)] assms(6) by auto
  then have "nuke_fn c b \<in> set (rev (hCleanups (teT s)))" by simp
  moreover have "harmless lives b (exec k)" for k
    using assms(3,4) harmless_nuke [OF assms(2)] by (cases "k = nuke_fn c b") simp_all
  moreover have "accounted api lives b t'" if "exec (nuke_fn c b) t = (Returned (), t')" for t t'
    using nuke_accounts [OF assms(1)] that assms(3) by metis
  moreover have "fst (exec (nuke_fn c b) t) \<in> {Returned (), Hangs}" for t
    using nuke_effect [of api jitter c b t] assms(3) by (metis prod.collapse)
  ultimately have "accounted api lives b s'"
    using assms(7) accounted_cleanups [of lives b exec "nuke_fn c b" api]
    unfolding t_runCleanups_def Let_def by blast
  then show ?thesis by (simp add: accounted_def reported_def)
qed

section \<open>A server with buckets\<close>

definition bucket_api :: "gostring list s3api" where
  "bucket_api = \<lparr>apiCreateBucket = (\<lambda>c b (now, w). (None, now + 1, b # w)),
     apiDeleteBucket = (\<lambda>c b (now, w). (None, now + 1, removeAll b w)),
     apiListVersions = (\<lambda>c b m (now, w). (Inr \<lparr>pgVersions = [], pgMarkers = [], pgTruncated = False, pgNext = ([], [])\<rparr>,
        now + 1, w)),
     apiDeleteObjects = (\<lambda>c i (now, w). (Inr [], now + 1, w)),
     apiRetention = (\<lambda>c b i (now, w). (None, now + 1, w)),
     apiErrText = (\<lambda>e. ''error'')\<rparr>"

definition bucket_state :: "(gostring, gostring list) tenv" where
  "bucket_state = \<lparr>teT = newT ''t'', teClock = 0, teWorld = []\<rparr>"

lemma bucket_api_ok:
  "delete_tells bucket_api (\<lambda>b w. b \<in> set w) c b"
  "creates_nothing bucket_api (\<lambda>b w. b \<in> set w) b"
  "api_forward bucket_api c b" "listing_ends bucket_api c b"
  by (auto simp: delete_tells_def creates_nothing_def stays_absent_def api_forward_def forward_def
      listing_ends_def bucket_api_def)

lemma bucket_teardown_ends: "fst (nuke bucket_api (\<lambda>_ _. 0) c b s) \<noteq> Hangs"
  by (simp add: nuke_total [OF bucket_api_ok(3,4)])

theorem no_silent_leak_witness:
  "\<exists>s1 s'. createBucket bucket_api (\<lambda>_ _. 0) None (\<lambda>c b. b) (MainClient (NewFactory example_cfg)) ''b'' bucket_state =
       (Returned ''b'', s1) \<and> teWorld s1 = [''b''] \<and>
     t_runCleanups (nuke bucket_api (\<lambda>_ _. 0) (MainClient (NewFactory example_cfg))) s1 = (Returned (), s') \<and>
     (''b'' \<notin> set (teWorld s') \<or>
      (\<exists>e. ''cleanup: delete bucket '' @ ''b'' @ '': '' @ apiErrText bucket_api e \<in> set (hLogs (teT s'))))"
proof -
  let ?c = "MainClient (NewFactory example_cfg)"
  let ?exec = "nuke bucket_api (\<lambda>_ _. 0) ?c :: gostring \<Rightarrow> (gostring, gostring list, unit) prog"
  let ?create = "createBucket bucket_api (\<lambda>_ _. 0) None (\<lambda>c b. b) ?c ''b'' bucket_state"
  obtain x s1 where create: "?create = (x, s1)" by (metis prod.exhaust)
  have "fst ?create = Returned ''b'' \<and> teWorld (snd ?create) = [''b'']"
    by (simp add: createBucket_def retryThrottled_def retry_fuel_def eval_nat_numeral retry_loop.simps
        lift_act_def call_def bucket_api_def bucket_state_def p_then_def p_bind_def t_Cleanup_def p_return_def)
  then have x: "x = Returned ''b''" and w: "teWorld s1 = [''b'']" using create by simp_all
  have "fst (t_runCleanups ?exec s1) = Returned ()"
    by (simp add: t_runCleanups_def cleanup_loop_foldl bucket_teardown_ends)
  then obtain s' where run: "t_runCleanups ?exec s1 = (Returned (), s')" by (metis prod.collapse)
  from no_silent_leak [OF bucket_api_ok(1,2), of ?exec "\<lambda>c b. b", OF refl harmless_nuke [OF bucket_api_ok(2)]
      create [unfolded x] subset_refl run]
  show ?thesis using create x w run by blast
qed

text \<open>
  A creation whose answer is lost: the bucket exists, the test has failed, and no removal is registered.
\<close>

lemma lost_answer_leaks:
  "\<exists>s'. createBucket (bucket_api\<lparr>apiCreateBucket := (\<lambda>c b (now, w). (Some [], now + 1, b # w))\<rparr>)
      (\<lambda>_ _. 0) None (\<lambda>c b. b) (MainClient (NewFactory example_cfg)) ''b'' bucket_state = (FailNow, s') \<and>
    teWorld s' = [''b''] \<and> hCleanups (teT s') = []"
  by (simp add: createBucket_def retryThrottled_def retry_fuel_def eval_nat_numeral retry_loop.simps throttled_def
      StatusAndCode_def lift_act_def call_def bucket_state_def t_Fatalf_def t_Errorf_def p_bind_def newT_def h_error_def)

end
