(* ===== verification/HeaderVerdicts.thy ===== *)
theory HeaderVerdicts
  imports Headers
begin

text \<open>
  What the tests of \<open>tests/headers\<close> do and what their verdicts say of the server: each comes to a verdict
  and registers the removal of what it creates, a refusal test passes exactly when the server refuses,
  and exit code 0 of \<open>s3t run\<close> certifies the refusals it was asked to test.
\<close>

section \<open>Every test comes to a verdict\<close>

text \<open>
  Programs that end, in a value or by \<open>FailNow\<close>, and have failed when they end by \<open>FailNow\<close>.
\<close>

definition concludes :: "('c, 'w, 'a) prog \<Rightarrow> bool" where
  "concludes m \<longleftrightarrow> (\<forall>s. (\<exists>a. fst (m s) = Returned a) \<or> fst (m s) = FailNow \<and> hFailed (teT (snd (m s))))"

named_theorems concluding

lemma concludes_return [concluding]: "concludes (p_return a)"
  by (simp add: concludes_def p_return_def)

lemma concludes_bind [concluding]:
  assumes "concludes m" and "\<And>a. concludes (k a)"
  shows "concludes (p_bind m k)"
  unfolding concludes_def
proof
  fix s
  obtain x t where m: "m s = (x, t)" by (cases "m s")
  show "(\<exists>a. fst (p_bind m k s) = Returned a) \<or>
      fst (p_bind m k s) = FailNow \<and> hFailed (teT (snd (p_bind m k s)))"
  proof (cases x)
    case (Returned a)
    then show ?thesis using assms(2) [of a] by (simp add: p_bind_def m concludes_def)
  qed (use assms(1) [unfolded concludes_def, rule_format, of s] in \<open>simp_all add: p_bind_def m\<close>)
qed

lemma concludes_then [concluding]: "concludes m \<Longrightarrow> concludes k \<Longrightarrow> concludes (p_then m k)"
  by (simp add: p_then_def concludes_bind)

lemma concludes_call [concluding]: "concludes (p_call a)"
  by (simp add: concludes_def p_call_def split: prod.splits)

lemma concludes_now [concluding]: "concludes p_now"
  by (simp add: concludes_def p_now_def)

lemma concludes_cleanup [concluding]: "concludes (t_Cleanup c)"
  by (simp add: concludes_def t_Cleanup_def)

lemma concludes_assertion: "assertion m P \<Longrightarrow> concludes m"
  unfolding concludes_def by (metis assertion.exits assertion.fails assertion.holds fst_conv insertE singletonD)

lemmas concludes_checks [concluding] =
  concludes_assertion [OF no_error.assertion_axioms] concludes_assertion [OF error_is.assertion_axioms]
  concludes_assertion [OF error_status.assertion_axioms]

text \<open>What makes the surroundings orderly: the clock does not go back over a creation, no jitter is negative.\<close>

definition orderly :: "'w surroundings \<Rightarrow> bool" where
  "orderly u \<longleftrightarrow> (\<forall>c b. forward (apiCreateBucket (svS3 (suServer u)) c b)) \<and> (\<forall>a d. 0 \<le> suJitter u a d)"

lemma concludes_newBucket: "orderly u \<Longrightarrow> concludes (newBucket u e)"
  unfolding concludes_def
proof
  fix s
  assume u: "orderly u"
  let ?act = "lift_act (apiCreateBucket (svS3 (suServer u)) (e_Client e) (fst (NewBucketName e)))"
  obtain x s' where r: "newBucket u e s = (x, s')" by (cases "newBucket u e s")
  have "\<exists>err s'. retryThrottled (suJitter u) (suDone u) ?act s = Some (err, s')"
    by (rule retry_returns) (use u in \<open>auto simp: orderly_def intro: timely_lift\<close>)
  then have "x \<noteq> Hangs"
    using r by (auto simp: newBucket_conv createBucket_def t_Fatalf_def t_Errorf_def p_then_def p_bind_def
        p_return_def t_Cleanup_def split: option.splits)
  then show "(\<exists>a. fst (newBucket u e s) = Returned a) \<or>
      fst (newBucket u e s) = FailNow \<and> hFailed (teT (snd (newBucket u e s)))"
    using createBucket_effect [OF r [unfolded newBucket_conv]] r by auto
qed

lemma concludes_helpers [concluding]:
  assumes "orderly u"
  shows "concludes (createObject u e c opts)" "concludes (createBadObject u e c opts)"
    "concludes (createBucketWith u e c opts)" "concludes (createBadBucket u e c opts)" "concludes (putObject u c b)"
  unfolding helper_defs by (intro concluding concludes_newBucket assms)+

lemma cases_conclude: "list_all (\<lambda>(name, fn, markers). \<forall>u e. orderly u \<longrightarrow> concludes (fn u e)) header_cases"
  by (simp only: header_cases_def commonCases_def aws2Cases_def list_all_append list.pred_inject prod.case
      body_defs Let_def; (intro conjI allI impI TrueI; (intro concluding concludes_newBucket | assumption)+))

text \<open>
  C4. A ported header test is a program that comes to a verdict: whatever the server
  answers, it neither hangs nor panics nor skips; it returns, or it ends by \<open>FailNow\<close> having failed.
\<close>

theorem header_tests_conclude:
  fixes su :: "gostring \<Rightarrow> 'w surroundings"
  assumes "t \<in> set (HeadersTests su cfg clients)" and "orderly (su (tName t))"
  shows "\<exists>fn :: (nat, 'w, unit) prog. tFn t = Some (behaves fn (tName t)) \<and>
    (\<forall>s. fst (fn s) = Returned () \<or> fst (fn s) = FailNow \<and> hFailed (teT (snd (fn s))))"
proof -
  obtain name fn markers where c: "(name, fn, markers) \<in> set header_cases"
    and t: "t = b_add su \<lparr>bCfg = cfg, bClients = clients\<rparr> name fn markers"
    using case_of [OF assms(1)] by blast
  have "concludes (fn (su name) e)" for e
    using cases_conclude c assms(2) by (force simp: list_all_iff t b_add_def)
  then show ?thesis
    by (intro exI [of _ "own_env (su name) \<lparr>bCfg = cfg, bClients = clients\<rparr> fn"])
      (auto simp: t b_add_def own_env_def concludes_def)
qed

section \<open>What a refusal test demands\<close>

definition passes :: "('c, 'w, unit) prog \<Rightarrow> ('c, 'w) tenv \<Rightarrow> bool" where
  "passes m s \<longleftrightarrow> fst (m s) = Returned () \<and> \<not> hFailed (teT (snd (m s)))"

text \<open>The answer to the write of \<open>createBadObject\<close> into a bucket, and to the creation of \<open>createBadBucket\<close>.\<close>

definition put_answer :: "'w surroundings \<Rightarrow> s3_options \<Rightarrow> gostring \<Rightarrow> (nat, 'w) tenv \<Rightarrow> sdk_error option" where
  "put_answer u ops bucket s = fst (call (svPutObject (suServer u) ops (put_input bucket (Some content) None)) s)"

definition create_answer :: "'w surroundings \<Rightarrow> fixture_env \<Rightarrow> s3_options \<Rightarrow> (nat, 'w) tenv \<Rightarrow> sdk_error option" where
  "create_answer u e ops s = fst (call (apiCreateBucket (svS3 (suServer u)) ops (fst (NewBucketName e))) s)"

lemma newBucket_handle:
  assumes "newBucket u e s = (x, s')"
  shows "(x = Returned (fst (NewBucketName e)) \<and> hFailed (teT s') = hFailed (teT s)) \<or>
    (x = FailNow \<and> hFailed (teT s')) \<or> x = Hangs"
  using createBucket_effect [OF assms [unfolded newBucket_conv]] by auto

lemma bad_object_run:
  "p_bind (createBadObject u e c opts) chk s = (case newBucket u e s of
     (Returned b, s1) \<Rightarrow> chk (put_answer u (with_opts c opts) b s1)
        (snd (call (svPutObject (suServer u) (with_opts c opts) (put_input b (Some content) None)) s1))
   | (FailNow, s1) \<Rightarrow> (FailNow, s1) | (SkipNow, s1) \<Rightarrow> (SkipNow, s1)
   | (Panicked v, s1) \<Rightarrow> (Panicked v, s1) | (Hangs, s1) \<Rightarrow> (Hangs, s1))"
  by (simp add: createBadObject_def p_bind_def p_call_def put_answer_def split: prod.splits exit.splits)

lemma bad_bucket_run:
  "p_bind (createBadBucket u e c opts) chk s =
     chk (create_answer u e (with_opts c opts) s)
       (update_handle (\<lambda>t. t\<lparr>hCleanups := hCleanups t @ [suNuke u (e_Client e) (fst (NewBucketName e))]\<rparr>)
         (snd (call (apiCreateBucket (svS3 (suServer u)) (with_opts c opts) (fst (NewBucketName e))) s)))"
  by (simp add: createBadBucket_def p_bind_def p_call_def p_then_def p_return_def t_Cleanup_def Let_def
      create_answer_def split: prod.splits)

lemma bad_object_passes:
  assumes "\<And>err. assertion (chk err :: (nat, 'w, unit) prog) (P err)" and "\<not> hFailed (teT s)"
  shows "passes (p_bind (createBadObject u e c opts) chk) s \<longleftrightarrow>
    (\<exists>b s1. newBucket u e s = (Returned b, s1) \<and> P (put_answer u (with_opts c opts) b s1))"
proof (cases "newBucket u e s")
  case (Pair x s1)
  show ?thesis
  proof (cases x)
    case (Returned b)
    have "\<not> hFailed (teT s1)" using newBucket_handle [OF Pair] Returned assms(2) by auto
    then show ?thesis
      using assertion.returns_iff [OF assms(1)] by (simp add: passes_def bad_object_run Pair Returned)
  qed (simp_all add: passes_def bad_object_run Pair)
qed

lemma bad_object_no_skip:
  assumes "\<And>err. assertion (chk err :: (nat, 'w, unit) prog) (P err)"
  shows "fst (p_bind (createBadObject u e c opts) chk s) \<noteq> SkipNow"
proof (cases "newBucket u e s")
  case (Pair x s1)
  have "fst (chk err t) \<noteq> SkipNow" for err t using assertion.exits [OF assms, of err t] by auto
  then show ?thesis using newBucket_handle [OF Pair] by (cases x) (simp_all add: bad_object_run Pair)
qed

lemma bad_bucket_passes:
  assumes "\<And>err. assertion (chk err :: (nat, 'w, unit) prog) (P err)" and "\<not> hFailed (teT s)"
  shows "passes (p_bind (createBadBucket u e c opts) chk) s \<longleftrightarrow> P (create_answer u e (with_opts c opts) s)"
  unfolding passes_def bad_bucket_run
  by (rule assertion.returns_iff [OF assms(1)]) (use assms(2) in simp)

text \<open>
  A test that demands a refusal passes exactly when the server refuses: the write, with
  the headers the test tampered with, of an object into a bucket the server has created for it, or the
  creation of a bucket, is answered by an error with the demanded status and code.
\<close>

theorem refusal_verdict:
  assumes "\<not> hFailed (teT s)"
  shows "(passes (p_bind (createBadObject u e c opts) (\<lambda>err. ErrorIs (err_text u) err status code)) s \<longleftrightarrow>
      (\<exists>b s1 err. newBucket u e s = (Returned b, s1) \<and> put_answer u (with_opts c opts) b s1 = Some err \<and>
        StatusAndCode (Some err) = (status, code))) \<and>
    (passes (p_bind (createBadBucket u e c opts) (\<lambda>err. ErrorIs (err_text u) err status code)) s \<longleftrightarrow>
      (\<exists>err. create_answer u e (with_opts c opts) s = Some err \<and> StatusAndCode (Some err) = (status, code)))"
  using bad_object_passes [OF error_is.assertion_axioms assms] bad_bucket_passes [OF error_is.assertion_axioms assms]
  by auto

section \<open>What exit code 0 says of the server\<close>

lemma planned_header:
  assumes "woHeadersTests w = HeadersTests su" and "cmd_prepare w s fl cfgPath = Inr pl"
    and "t \<in> set (plTests pl)" and "(tName t, fn, markers) \<in> set header_cases"
  shows "\<exists>b. t = b_add su b (tName t) fn markers"
proof -
  obtain r cfg clients where reg: "registryWithTimeouts w cfgPath (rfTimeouts fl) = Inr (r, cfg, clients)"
      and sel: "sel_resolve w s r = Inr (plTests pl)"
    using assms(2) by (auto simp: cmd_prepare_def make_plan_def Let_def split: sum.splits prod.splits if_splits)
  have "suite_Registry w cfg clients = Inr r"
    using reg by (auto simp: registryWithTimeouts_def Let_def split: if_splits sum.splits)
  then have r: "reg_invar r" "reg_tests r = woS3Tests w cfg clients @ HeadersTests su cfg clients"
    using add_tests_Inr [of "\<lparr>byName = []\<rparr>" _ r]
    by (simp_all add: suite_Registry_def assms(1) NewRegistry_def reg_tests_def)
  let ?h = "b_add su \<lparr>bCfg = cfg, bClients = clients\<rparr> (tName t) fn markers"
  have "?h \<in> set (HeadersTests su cfg clients)"
    using assms(4) by (force simp: HeadersTests_cases add_all_def)
  then have "reg_lookup r (tName t) = Some ?h"
    using r by (simp add: reg_lookup_Some b_add_def)
  moreover obtain q where "reg_select r q = Inr (plTests pl)"
    using sel by (auto simp: sel_resolve_def split: sum.splits)
  then have "t \<in> set (reg_tests r)"
    using reg_select_Inr [OF r(1)] assms(3) by (auto simp: reg_all_def reg_tests_def)
  then have "reg_lookup r (tName t) = Some t" using r(1) by (simp add: reg_lookup_Some)
  ultimately have "t = ?h" by simp
  then show ?thesis by blast
qed

lemma exit_zero_ended:
  assumes "cmd_prepare w s fl cfgPath = Inr pl"
    and "runs_to (plRunner pl) (plTests pl) (run (plRunner pl) (plTests pl))"
    and "main_exit (crError (cmdRun w io s fl cfgPath run)) = 0"
    and "t \<in> set (plTests pl)" and "\<not> kf_expected (plKnown pl) (tName t)"
    and "tFn t = Some (behaves fn (tName t))"
  shows "\<exists>s0. teT s0 = newT (tName t) \<and> (passes fn s0 \<or> fst (fn s0) = SkipNow)"
proof -
  obtain i where i: "i < length (plTests pl)" "plTests pl ! i = t" using assms(4) by (auto simp: in_set_conv_nth)
  let ?res = "roResults (run (plRunner pl) (plTests pl)) ! i"
  have r: "outcome_of (plRunner pl) False (plTests pl) i ?res" "as_expected (plKnown pl) ?res"
      "resTest ?res = plTests pl ! i"
    using exit_zero_results [OF assms(1-3) i(1)] by simp_all
  then have "resStatus ?res = StatusPassed \<or> resStatus ?res = StatusSkipped"
    using assms(5) i by (simp add: as_expected_def)
  moreover obtain now wo where "ended_as (resStatus ?res) (fn \<lparr>teT = newT (tName t), teClock = now, teWorld = wo\<rparr>)"
    using outcome_ended_as [OF r(1)] assms(6) i by blast
  ultimately show ?thesis
    by (intro exI [of _ "\<lparr>teT = newT (tName t), teClock = now, teWorld = wo\<rparr>"]) (auto simp: passes_def ended_as_def)
qed

lemma main_client_edits:
  "\<exists>f a k. with_opts (e_Client e) opts = forUser f a k opts"
  by (auto simp: with_opts_def e_Client_def MainClient_def forUser_def)


section \<open>Examples\<close>

text \<open>A server that creates every bucket and refuses every write.\<close>

definition refusing :: "unit surroundings" where
  "refusing = \<lparr>suServer = \<lparr>svS3 = \<lparr>apiCreateBucket = (\<lambda>c b s. (None, s)), apiDeleteBucket = (\<lambda>c b s. (None, s)),
       apiListVersions = (\<lambda>c b m s. (Inl [], s)), apiDeleteObjects = (\<lambda>c i s. (Inr [], s)),
       apiRetention = (\<lambda>c b i s. (None, s)), apiErrText = (\<lambda>e. ''error'')\<rparr>,
     svPutObject = (\<lambda>c i s. (Some [\<lparr>elStatus = Some 403, elCode = Some ''AccessDenied''\<rparr>], s)),
     svPutObjectAcl = (\<lambda>c b k a s. (None, s)), svPutBucketAcl = (\<lambda>c b a s. (None, s))\<rparr>,
   suJitter = (\<lambda>_ _. 0), suDone = None, suNuke = (\<lambda>_ _. 0), suDraws = (\<lambda>_. 0), suV2Date = (\<lambda>_. [])\<rparr>"

lemma refusing_newBucket:
  "newBucket refusing e s = (Returned (fst (NewBucketName e)),
     update_handle (\<lambda>t. t\<lparr>hCleanups := hCleanups t @ [0]\<rparr>) s)"
  by (simp add: newBucket_conv createBucket_def refusing_def retryThrottled_def retry_fuel_def eval_nat_numeral
      retry_loop.simps lift_act_def call_def t_Cleanup_def p_then_def p_bind_def p_return_def)

lemma refusing_put: "put_answer refusing ops b s = Some [\<lparr>elStatus = Some 403, elCode = Some ''AccessDenied''\<rparr>]"
  by (simp add: put_answer_def refusing_def call_def split: prod.splits)

definition fresh_state :: "gostring \<Rightarrow> (nat, unit) tenv" where
  "fresh_state n = \<lparr>teT = newT n, teClock = 0, teWorld = ()\<rparr>"

theorem header_tests_conclude_witness:
  "\<exists>fn :: (nat, unit, unit) prog.
     tFn (hd (HeadersTests (\<lambda>_. refusing) example_cfg (NewFactory example_cfg))) =
       Some (behaves fn ''object_create_bad_md5_invalid_short'') \<and> fst (fn (fresh_state ''t'')) \<noteq> Hangs"
proof -
  let ?t = "hd (HeadersTests (\<lambda>_. refusing) example_cfg (NewFactory example_cfg))"
  have n: "tName ?t = ''object_create_bad_md5_invalid_short''" and "?t \<in> set (HeadersTests (\<lambda>_. refusing) example_cfg (NewFactory example_cfg))"
    by (simp_all add: HeadersTests_def add_all_def commonCases_def b_add_def Let_def)
  moreover have "orderly refusing" by (simp add: orderly_def refusing_def forward_def)
  ultimately obtain fn :: "(nat, unit, unit) prog" where "tFn ?t = Some (behaves fn (tName ?t))"
      "\<forall>s. fst (fn s) = Returned () \<or> fst (fn s) = FailNow \<and> hFailed (teT (snd (fn s)))"
    using header_tests_conclude [of ?t "\<lambda>_. refusing" example_cfg "NewFactory example_cfg"] by auto
  then show ?thesis unfolding n by (metis exit.distinct(7) exit.distinct(13))
qed

theorem refusal_verdict_witness:
  "passes (p_bind (createBadObject refusing (NewEnv (\<lambda>_. 0) (newT ''t'' :: nat handle) example_cfg (NewFactory example_cfg))
     (MainClient (NewFactory example_cfg)) []) (\<lambda>err. ErrorIs (err_text refusing) err 403 ''AccessDenied''))
   (fresh_state ''t'')"
proof -
  have "\<not> hFailed (teT (fresh_state ''t''))" by (simp add: fresh_state_def newT_def)
  from refusal_verdict [OF this] show ?thesis
    by (simp add: refusing_newBucket refusing_put StatusAndCode_def)
qed

definition header_world :: "body world" where
  "header_world = (sample_world any_body)\<lparr>woRegexp := (\<lambda>p. Some (\<lambda>n. n = p)), woS3Tests := (\<lambda>_ _. []),
     woHeadersTests := HeadersTests (\<lambda>_. refusing)\<rparr>"

definition unsigned_test :: "config \<Rightarrow> factory \<Rightarrow> body gotest" where
  "unsigned_test cfg clients = b_add (\<lambda>_. refusing) \<lparr>bCfg = cfg, bClients = clients\<rparr>
     ''object_create_bad_authorization_none'' objectCreateBadAuthorizationNone [markerAuthCommon, ''fails_on_rgw'']"

definition unsigned_selection :: cli_selection where
  "unsigned_selection = sample_selection\<lparr>clRun := ''object_create_bad_authorization_none''\<rparr>"

lemma unsigned_only: "filter (\<lambda>t. tName t = ''object_create_bad_authorization_none'')
    (HeadersTests (\<lambda>_. refusing) cfg clients) = [unsigned_test cfg clients]"
  by (simp add: HeadersTests_def add_all_def commonCases_def aws2Cases_def b_add_def unsigned_test_def Let_def)

lemma unsigned_plan:
  "\<exists>pl cfg clients. cmd_prepare header_world unsigned_selection sample_flags ''c'' = Inr pl \<and>
    plRunner pl = sample_runner \<and> plTests pl = [unsigned_test cfg clients] \<and> plKnown pl = None"
proof -
  define r where "r c f = (SOME r. NewRegistry (HeadersTests (\<lambda>_. refusing) c f) = Inr r)" for c f
  have r: "NewRegistry (HeadersTests (\<lambda>_. refusing) c f) = Inr (r c f)" for c f
    unfolding r_def using header_registry by (rule someI_ex)
  then have reg: "reg_tests (r c f) = HeadersTests (\<lambda>_. refusing) c f" for c f
    using add_tests_Inr [of "\<lparr>byName = []\<rparr>" _ "r c f"] by (simp add: NewRegistry_def reg_tests_def)
  have "selected \<lparr>selRun = Some (\<lambda>n. n = x), selMarkers = None, selAllowList = []\<rparr> = (\<lambda>t :: body gotest. tName t = x)" for x
    by (simp add: selected_def marker_match_def fun_eq_iff)
  then have "sel_resolve header_world unsigned_selection (r c f) = Inr [unsigned_test c f]" for c f
    using reg [of c f] unsigned_only [of c f]
    by (simp add: sel_resolve_def build_selection_def compile_run_def unsigned_selection_def sample_selection_def
        header_world_def ParseMarkerExpr_def reg_select_no_list reg_all_def reg_tests_def filter_sort)
  then show ?thesis
    using sample_plan [of header_world r unsigned_selection "\<lambda>c f. [unsigned_test c f]"] r
    by (fastforce simp: header_world_def sample_world_def suite_Registry_def)
qed

lemma unsigned_returns: "body_returns [0] (unsigned_test cfg clients)"
proof -
  have "p_bind (createBadObject refusing e c opts) (\<lambda>err. ErrorStatus (err_text refusing) err 403) s =
      (Returned (), update_handle (\<lambda>t. t\<lparr>hCleanups := hCleanups t @ [0]\<rparr>) s)" for e c opts s
    by (simp add: bad_object_run refusing_newBucket refusing_put error_status.holds StatusAndCode_def)
      (simp add: refusing_def call_def split: prod.splits)
  then show ?thesis
    by (simp add: body_returns_def unsigned_test_def b_add_def behaves_def realises_def own_env_def
        objectCreateBadAuthorizationNone_def example_body_def apply_ops_def)
qed


end
