(* ===== verification/HeaderBuckets.thy ===== *)
theory HeaderBuckets
  imports Headers
begin

text \<open>
  The buckets the tests of \<open>tests/headers\<close> create: each is removed by a cleanup its test has registered.
\<close>

section \<open>What the server does to buckets\<close>

text \<open>
  \<open>has b w\<close>: the bucket exists in the world. Creating a bucket brings into being at most that bucket,
  whatever is answered; the other calls of these tests bring none into being.
\<close>

definition makes_only :: "(gostring \<Rightarrow> 'w \<Rightarrow> bool) \<Rightarrow> gostring set \<Rightarrow> ('w, 'a) act \<Rightarrow> bool" where
  "makes_only has bs a \<longleftrightarrow> (\<forall>t w r t' w' b. a (t, w) = (r, t', w') \<and> has b w' \<longrightarrow> has b w \<or> b \<in> bs)"

definition bucket_laws :: "(gostring \<Rightarrow> 'w \<Rightarrow> bool) \<Rightarrow> 'w server \<Rightarrow> bool" where
  "bucket_laws has sv \<longleftrightarrow>
     (\<forall>c b. makes_only has {b} (apiCreateBucket (svS3 sv) c b)) \<and>
     (\<forall>c i. makes_only has {} (svPutObject sv c i)) \<and>
     (\<forall>c b k a. makes_only has {} (svPutObjectAcl sv c b k a)) \<and>
     (\<forall>c b a. makes_only has {} (svPutBucketAcl sv c b a))"

lemma makes_only_call: "makes_only has bs a \<Longrightarrow> call a s = (r, s') \<Longrightarrow> has b (teWorld s') \<Longrightarrow>
    has b (teWorld s) \<or> b \<in> bs"
  unfolding makes_only_def call_def by (fastforce split: prod.splits)

section \<open>Programs that create nothing\<close>

definition idle :: "(gostring \<Rightarrow> 'w \<Rightarrow> bool) \<Rightarrow> ('c, 'w, 'a) prog \<Rightarrow> bool" where
  "idle has m \<longleftrightarrow> (\<forall>s. hCleanups (teT (snd (m s))) = hCleanups (teT s) \<and>
     (\<forall>b. has b (teWorld (snd (m s))) \<longrightarrow> has b (teWorld s)))"

lemma idleD:
  assumes "idle has m"
  shows "hCleanups (teT (snd (m s))) = hCleanups (teT s)"
    and "has b (teWorld (snd (m s))) \<Longrightarrow> has b (teWorld s)"
  using assms by (simp_all add: idle_def)

named_theorems idling

lemma idle_return [idling]: "idle has (p_return a)"
  by (simp add: idle_def p_return_def)

lemma idle_now [idling]: "idle has p_now"
  by (simp add: idle_def p_now_def)

lemma idle_call [idling]: "makes_only has {} a \<Longrightarrow> idle has (p_call a)"
  using makes_only_call [of has "{}" a] call_cases [of a] unfolding idle_def p_call_def
  by (metis (mono_tags, lifting) case_prod_beta empty_iff prod.collapse snd_conv)

lemma idle_bind [idling]:
  assumes "idle has m" and "\<And>a. idle has (k a)"
  shows "idle has (p_bind m k)"
  unfolding idle_def
proof
  fix s
  obtain x t where m: "m s = (x, t)" by (cases "m s")
  have "hCleanups (teT t) = hCleanups (teT s) \<and> (\<forall>b. has b (teWorld t) \<longrightarrow> has b (teWorld s))"
    using assms(1) by (metis idle_def m snd_conv)
  then show "hCleanups (teT (snd (p_bind m k s))) = hCleanups (teT s) \<and>
      (\<forall>b. has b (teWorld (snd (p_bind m k s))) \<longrightarrow> has b (teWorld s))"
    using assms(2) by (cases x) (auto simp: p_bind_def m idle_def)
qed

lemma idle_then [idling]: "idle has m \<Longrightarrow> idle has k \<Longrightarrow> idle has (p_then m k)"
  by (simp add: p_then_def idle_bind)

lemma idle_assertion: "assertion m P \<Longrightarrow> idle has m"
  by (simp add: idle_def assertion.quiet)

lemmas idle_checks [idling] =
  idle_assertion [OF no_error.assertion_axioms] idle_assertion [OF error_is.assertion_axioms]
  idle_assertion [OF error_status.assertion_axioms]

lemma idle_put [idling]:
  assumes "bucket_laws has (suServer u)"
  shows "idle has (p_call (svPutObject (suServer u) c i))" "idle has (p_call (svPutObjectAcl (suServer u) c b k a))"
    "idle has (p_call (svPutBucketAcl (suServer u) c b a))"
  using assms by (auto simp: bucket_laws_def intro: idle_call)

section \<open>Programs that register what they create\<close>

text \<open>
  A new bucket is the subject of a registered removal; the exception is a program that ended early
  without having registered anything.
\<close>

definition accounts :: "(gostring \<Rightarrow> 'w \<Rightarrow> bool) \<Rightarrow> 'w surroundings \<Rightarrow> (nat, 'w, 'a) prog \<Rightarrow> bool" where
  "accounts has u m \<longleftrightarrow> (\<forall>s b. has b (teWorld (snd (m s))) \<longrightarrow> has b (teWorld s) \<or>
     (\<exists>c. suNuke u c b \<in> set (hCleanups (teT (snd (m s))))) \<or>
     (\<forall>a. fst (m s) \<noteq> Returned a) \<and> hCleanups (teT (snd (m s))) = hCleanups (teT s))"

named_theorems accounting

lemma accounts_bind [accounting]:
  assumes "accounts has u m" and "\<And>a. idle has (k a)"
  shows "accounts has u (p_bind m k)"
  unfolding accounts_def
proof (intro allI impI)
  fix s b
  assume h: "has b (teWorld (snd (p_bind m k s)))"
  obtain x t where m: "m s = (x, t)" by (cases "m s")
  have acc: "has b (teWorld t) \<longrightarrow> has b (teWorld s) \<or> (\<exists>c. suNuke u c b \<in> set (hCleanups (teT t))) \<or>
      (\<forall>a. x \<noteq> Returned a) \<and> hCleanups (teT t) = hCleanups (teT s)"
    using assms(1) by (metis accounts_def fst_conv m snd_conv)
  show "has b (teWorld s) \<or> (\<exists>c. suNuke u c b \<in> set (hCleanups (teT (snd (p_bind m k s))))) \<or>
      (\<forall>a. fst (p_bind m k s) \<noteq> Returned a) \<and> hCleanups (teT (snd (p_bind m k s))) = hCleanups (teT s)"
    using acc h assms(2) by (cases x) (auto simp: p_bind_def m idle_def)
qed

lemma accounts_now [accounting]: "(\<And>now. accounts has u (k now)) \<Longrightarrow> accounts has u (p_bind p_now k)"
  by (simp add: accounts_def p_bind_def p_now_def)

lemma create_steps:
  assumes "makes_only has {name} a"
  shows "retry_steps (\<lambda>s s'. teT s' = teT s \<and> (\<forall>b. has b (teWorld s') \<longrightarrow> has b (teWorld s) \<or> b = name)) (lift_act a)"
  by unfold_locales (use makes_only_call [OF assms] call_cases in \<open>fastforce simp: lift_act_def\<close>)+

lemma accounts_newBucket [accounting]:
  assumes "bucket_laws has (suServer u)"
  shows "accounts has u (newBucket u e)"
  unfolding accounts_def
proof (intro allI impI)
  fix s b
  assume h: "has b (teWorld (snd (newBucket u e s)))"
  let ?name = "fst (NewBucketName e)"
  let ?act = "lift_act (apiCreateBucket (svS3 (suServer u)) (e_Client e) ?name)"
  have "makes_only has {?name} (apiCreateBucket (svS3 (suServer u)) (e_Client e) ?name)"
    using assms by (simp add: bucket_laws_def)
  note steps = retry_steps.retry [OF create_steps [OF this], of "suJitter u" "suDone u" s]
  show "has b (teWorld s) \<or> (\<exists>c. suNuke u c b \<in> set (hCleanups (teT (snd (newBucket u e s))))) \<or>
      (\<forall>a. fst (newBucket u e s) \<noteq> Returned a) \<and> hCleanups (teT (snd (newBucket u e s))) = hCleanups (teT s)"
  proof (cases "retryThrottled (suJitter u) (suDone u) ?act s")
    case None
    then show ?thesis using h by (simp add: newBucket_conv createBucket_def)
  next
    case (Some r)
    then obtain err s1 where r: "retryThrottled (suJitter u) (suDone u) ?act s = Some (err, s1)" by (cases r) auto
    show ?thesis
      using steps [OF r] h r
      by (cases err) (auto simp: newBucket_conv createBucket_def t_Fatalf_def t_Errorf_def h_error_def t_Cleanup_def
          p_then_def p_bind_def p_return_def)
  qed
qed

lemma accounts_create:
  assumes "bucket_laws has (suServer u)" and "\<And>a. idle has (k a)"
  shows "accounts has u (p_bind (p_call (apiCreateBucket (svS3 (suServer u)) c name))
    (\<lambda>err. p_then (t_Cleanup (suNuke u c' name)) (k err)))"
  unfolding accounts_def
proof (intro allI impI)
  fix s b
  let ?m = "p_bind (p_call (apiCreateBucket (svS3 (suServer u)) c name))
    (\<lambda>err. p_then (t_Cleanup (suNuke u c' name)) (k err))"
  assume h: "has b (teWorld (snd (?m s)))"
  obtain err t where c: "call (apiCreateBucket (svS3 (suServer u)) c name) s = (err, t)" by fastforce
  let ?t = "update_handle (\<lambda>h. h\<lparr>hCleanups := hCleanups h @ [suNuke u c' name]\<rparr>) t"
  have m: "?m s = k err ?t" by (simp add: p_bind_def p_call_def p_then_def t_Cleanup_def c)
  have k: "has b (teWorld t)" "hCleanups (teT (snd (k err ?t))) = hCleanups (teT t) @ [suNuke u c' name]"
    using idleD(1) [OF assms(2) [of err], of ?t] idleD(2) [OF assms(2) [of err], of b ?t] h by (simp_all add: m)
  have "makes_only has {name} (apiCreateBucket (svS3 (suServer u)) c name)"
    using assms(1) by (simp add: bucket_laws_def)
  from makes_only_call [OF this c k(1)]
  show "has b (teWorld s) \<or> (\<exists>c. suNuke u c b \<in> set (hCleanups (teT (snd (?m s))))) \<or>
      (\<forall>a. fst (?m s) \<noteq> Returned a) \<and> hCleanups (teT (snd (?m s))) = hCleanups (teT s)"
    using k(2) by (auto simp: m)
qed

lemma accounts_helpers [accounting]:
  assumes "bucket_laws has (suServer u)"
  shows "accounts has u (createObject u e c opts)" "accounts has u (createBadObject u e c opts)"
    "accounts has u (createBucketWith u e c opts)" "accounts has u (createBadBucket u e c opts)"
    and "idle has (putObject u c b)"
  unfolding helper_defs
  by (intro accounting accounts_create idling assms)+

lemmas idle_putObject [idling] = accounts_helpers(5)

lemma cases_account:
  "list_all (\<lambda>(name, fn, markers). \<forall>has u e. bucket_laws has (suServer u) \<longrightarrow> accounts has u (fn u e)) header_cases"
  by (simp only: header_cases_def commonCases_def aws2Cases_def list_all_append list.pred_inject prod.case
      body_defs Let_def; (intro conjI allI impI TrueI; (intro accounting idling | assumption)+))


text \<open>A server that keeps buckets and takes every write; closures are numbered by the length of the name.\<close>

definition keeping :: "gostring list surroundings" where
  "keeping = \<lparr>suServer = \<lparr>svS3 = bucket_api, svPutObject = (\<lambda>c i s. (None, s)),
     svPutObjectAcl = (\<lambda>c b k a s. (None, s)), svPutBucketAcl = (\<lambda>c b a s. (None, s))\<rparr>,
   suJitter = (\<lambda>_ _. 0), suDone = None, suNuke = (\<lambda>_ b. length b), suDraws = (\<lambda>_. 0), suV2Date = (\<lambda>_. [])\<rparr>"


end
